theory Spec2Isabelle
  imports Complex_Main
begin

text \<open>
  The repository simulates a security checkpoint with two tiers of queues: travelers
  arrive at random, each joins the shortest of the queues of the primary stations, and a
  fraction of them goes on to the queue of the one senior station. Its algorithmic core
  is two functions: \<open>runSimulation\<close> (the simulation module, with its helpers
  \<open>truncatedNormal\<close> and \<open>calculateWaitingTimeDistribution\<close>), a simulation in fixed
  steps of 0.1 seconds, and \<open>calculateTheoretical\<close> (\<open>TheoreticalResults.tsx\<close>), the
  closed form for an M/M/c queue. This theory embeds both: the numbers and the
  theoretical model first, then the engine (the histogram, the sampling functions, the
  state, one step, the run), then the properties proved of them.
\<close>

section \<open>JavaScript numbers\<close>

text \<open>
  The program computes with JavaScript \<open>number\<close>s, which are IEEE 754 doubles. They
  are modelled as reals extended by the three special values that the program can
  produce: \<open>Infinity\<close>, \<open>-Infinity\<close> and \<open>NaN\<close>. The sign of zero is not
  distinguished: a non-zero number divided by zero gives the infinity with the sign of
  the numerator.

  The operations \<open>js_add\<close>, \<open>js_sub\<close>, \<open>js_mul\<close> and \<open>js_div\<close> of this section
  are exact: they stand for the operations of the program where the rounding of the
  result to a double changes a value in its last bits only. The next section gives the
  rounding of doubles, and the operations that round; they are used where a count, a
  comparison or the range of the doubles decides what the program does: for the
  factorial and the power of the theoretical model, the number of steps of a run, the
  accumulated busy times and the utilizations computed from them, and the histogram.
\<close>

datatype jsnum = Num real | PInf | NInf | NaN

fun js_neg :: "jsnum \<Rightarrow> jsnum" where
  "js_neg (Num a) = Num (- a)"
| "js_neg PInf = NInf"
| "js_neg NInf = PInf"
| "js_neg NaN = NaN"

fun js_add :: "jsnum \<Rightarrow> jsnum \<Rightarrow> jsnum" where
  "js_add (Num a) (Num b) = Num (a + b)"
| "js_add NaN _ = NaN"
| "js_add _ NaN = NaN"
| "js_add PInf NInf = NaN"
| "js_add NInf PInf = NaN"
| "js_add PInf _ = PInf"
| "js_add _ PInf = PInf"
| "js_add NInf _ = NInf"
| "js_add _ NInf = NInf"

definition js_sub :: "jsnum \<Rightarrow> jsnum \<Rightarrow> jsnum" where
  "js_sub a b = js_add a (js_neg b)"

fun js_mul :: "jsnum \<Rightarrow> jsnum \<Rightarrow> jsnum" where
  "js_mul (Num a) (Num b) = Num (a * b)"
| "js_mul NaN _ = NaN"
| "js_mul _ NaN = NaN"
| "js_mul PInf (Num b) = (if b = 0 then NaN else if 0 < b then PInf else NInf)"
| "js_mul NInf (Num b) = (if b = 0 then NaN else if 0 < b then NInf else PInf)"
| "js_mul (Num a) PInf = (if a = 0 then NaN else if 0 < a then PInf else NInf)"
| "js_mul (Num a) NInf = (if a = 0 then NaN else if 0 < a then NInf else PInf)"
| "js_mul PInf PInf = PInf"
| "js_mul PInf NInf = NInf"
| "js_mul NInf PInf = NInf"
| "js_mul NInf NInf = PInf"

fun js_div :: "jsnum \<Rightarrow> jsnum \<Rightarrow> jsnum" where
  "js_div (Num a) (Num b) =
     (if b \<noteq> 0 then Num (a / b)
      else if a = 0 then NaN else if 0 < a then PInf else NInf)"
| "js_div NaN _ = NaN"
| "js_div _ NaN = NaN"
| "js_div (Num a) PInf = Num 0"
| "js_div (Num a) NInf = Num 0"
| "js_div PInf (Num b) = (if 0 \<le> b then PInf else NInf)"
| "js_div NInf (Num b) = (if 0 \<le> b then NInf else PInf)"
| "js_div PInf PInf = NaN"
| "js_div PInf NInf = NaN"
| "js_div NInf PInf = NaN"
| "js_div NInf NInf = NaN"

text \<open>Comparisons: every comparison with \<open>NaN\<close> is false.\<close>

fun js_lt :: "jsnum \<Rightarrow> jsnum \<Rightarrow> bool" where
  "js_lt (Num a) (Num b) = (a < b)"
| "js_lt NaN _ = False"
| "js_lt _ NaN = False"
| "js_lt _ NInf = False"
| "js_lt PInf _ = False"
| "js_lt NInf _ = True"
| "js_lt _ PInf = True"

fun js_le :: "jsnum \<Rightarrow> jsnum \<Rightarrow> bool" where
  "js_le (Num a) (Num b) = (a \<le> b)"
| "js_le NaN _ = False"
| "js_le _ NaN = False"
| "js_le NInf _ = True"
| "js_le _ PInf = True"
| "js_le PInf _ = False"
| "js_le _ NInf = False"

section \<open>Doubles\<close>

text \<open>
  A double is zero or \<open>m * 2^e\<close> for integers \<open>m\<close> and \<open>e\<close> with
  \<open>2^52 \<le> \<bar>m\<bar> < 2^53\<close> and \<open>-1074 \<le> e \<le> 971\<close> (a normal number), or with
  \<open>\<bar>m\<bar> < 2^52\<close> and \<open>e = -1074\<close> (a subnormal number). The result of an arithmetic
  operation is the double nearest to the exact result, the one with the even \<open>m\<close> when
  two are equally near, and an infinity when that rounding reaches \<open>2^1024\<close>.

  \<open>roundHalfEven\<close> rounds to the nearest integer, \<open>ulpExponent x\<close> is the exponent
  \<open>e\<close> of the doubles around \<open>x\<close>, \<open>toDouble\<close> rounds a real to that grid, and
  \<open>js_round\<close> is the result of an operation whose exact value is \<open>x\<close>.
\<close>

definition roundHalfEven :: "real \<Rightarrow> int" where
  "roundHalfEven x =
     (let f = \<lfloor>x\<rfloor>; r = x - of_int f
      in if r < 1 / 2 then f else if 1 / 2 < r then f + 1 else if even f then f else f + 1)"

definition ulpExponent :: "real \<Rightarrow> int" where
  "ulpExponent x = max (\<lfloor>log 2 \<bar>x\<bar>\<rfloor> - 52) (- 1074)"

definition toDouble :: "real \<Rightarrow> real" where
  "toDouble x =
     (if x = 0 then 0
      else of_int (roundHalfEven (x / 2 powi ulpExponent x)) * 2 powi ulpExponent x)"

definition js_round :: "real \<Rightarrow> jsnum" where
  "js_round x =
     (let d = toDouble x
      in if 2 ^ 1024 \<le> \<bar>d\<bar> then (if 0 < d then PInf else NInf) else Num d)"

text \<open>\<open>a * b\<close> and \<open>a / b\<close> with the rounding of the result.\<close>

definition js_mul_d :: "jsnum \<Rightarrow> jsnum \<Rightarrow> jsnum" where
  "js_mul_d a b = (case js_mul a b of Num x \<Rightarrow> js_round x | y \<Rightarrow> y)"

definition js_div_d :: "jsnum \<Rightarrow> jsnum \<Rightarrow> jsnum" where
  "js_div_d a b = (case js_div a b of Num x \<Rightarrow> js_round x | y \<Rightarrow> y)"

text \<open>
  \<open>Math.pow(x, k)\<close> for an exponent that is a non-negative integer. The language
  leaves the last bits of the result of \<open>Math.pow\<close> to the implementation; the model
  keeps the exact power and takes from the doubles their range: a power that rounds to
  beyond the largest double is an infinity, and one that rounds to zero is zero.
\<close>

definition js_range :: "real \<Rightarrow> jsnum" where
  "js_range x = (case js_round x of Num d \<Rightarrow> (if d = 0 then Num 0 else Num x) | y \<Rightarrow> y)"

fun js_pow :: "jsnum \<Rightarrow> nat \<Rightarrow> jsnum" where
  "js_pow x 0 = Num 1"
| "js_pow (Num a) (Suc k) = js_range (a ^ Suc k)"
| "js_pow PInf (Suc k) = PInf"
| "js_pow NInf (Suc k) = (if even (Suc k) then PInf else NInf)"
| "js_pow NaN (Suc k) = NaN"

section \<open>Parameters\<close>

text \<open>
  \<open>SimParams\<close> and \<open>SimulationParams\<close> of the source have the same fields; both
  functions are called with the same object. \<open>numStations\<close> is a count (the source
  builds an array of that length); the other fields are finite numbers.
\<close>

record SimulationParams =
  numStations :: nat
  arrivalRate :: real
  mu1 :: real
  sigma1 :: real
  mu2 :: real
  sigma2 :: real
  screenProb :: real
  simulationTime :: real

section \<open>Theoretical model (TheoreticalResults.tsx)\<close>

record TheoreticalResults =
  utilization :: jsnum
  avgQueueLength :: jsnum
  avgWaitTime :: jsnum
  avgSystemTime :: jsnum

text \<open>\<open>factorial\<close> (lines 12 to 14) and \<open>calculateTheoretical\<close> (lines 16 to 39). The
  arguments of \<open>factorial\<close> are the station count and the indices below it. Its
  products are products of doubles: they are exact up to \<open>22!\<close>, rounded from \<open>23!\<close>
  on, and \<open>Infinity\<close> from \<open>171!\<close> on.\<close>

fun factorial :: "nat \<Rightarrow> jsnum" where
  "factorial n = (if n \<le> 1 then Num 1 else js_mul_d (Num (real n)) (factorial (n - 1)))"

declare factorial.simps [simp del]

definition calculateTheoretical :: "SimulationParams \<Rightarrow> TheoreticalResults" where
  "calculateTheoretical params =
    (let lambda = js_div (Num (arrivalRate params)) (Num 60);
         mu = js_div (Num 1) (js_div (Num (mu1 params)) (Num 1000));
         c = numStations params;
         rho = js_div lambda (js_mul (Num (real c)) mu);
         p0_sum = map (\<lambda>k. js_div (js_pow (js_mul (Num (real c)) rho) k) (factorial k))
                      [0..<c];
         p0_final = js_div (js_pow (js_mul (Num (real c)) rho) c)
                           (js_mul (factorial c) (js_sub (Num 1) rho));
         p0 = js_div (Num 1) (js_add (foldl js_add (Num 0) p0_sum) p0_final);
         erlangC = js_div (js_mul (js_pow (js_mul (Num (real c)) rho) c) p0)
                          (js_mul (factorial c) (js_sub (Num 1) rho));
         Lq = js_div (js_mul erlangC rho) (js_sub (Num 1) rho);
         Wq = js_div Lq lambda;
         Ws = js_add Wq (js_div (Num 1) mu)
     in \<lparr>utilization = rho, avgQueueLength = Lq, avgWaitTime = Wq, avgSystemTime = Ws\<rparr>)"










section \<open>Simulation engine: numeric helpers\<close>

text \<open>\<open>Math.floor\<close>, \<open>Math.min\<close>, \<open>Math.max\<close>, \<open>Math.log\<close>, \<open>Math.sqrt\<close> and
  \<open>Math.cos\<close> on JavaScript numbers. \<open>Math.log(0)\<close> is \<open>-Infinity\<close>; the logarithm
  and the square root of a negative number are \<open>NaN\<close>.\<close>

fun js_floor :: "jsnum \<Rightarrow> jsnum" where
  "js_floor (Num a) = Num (of_int \<lfloor>a\<rfloor>)"
| "js_floor x = x"

fun js_min :: "jsnum \<Rightarrow> jsnum \<Rightarrow> jsnum" where
  "js_min (Num a) (Num b) = Num (min a b)"
| "js_min NaN _ = NaN"
| "js_min _ NaN = NaN"
| "js_min NInf _ = NInf"
| "js_min _ NInf = NInf"
| "js_min PInf y = y"
| "js_min x PInf = x"

fun js_max :: "jsnum \<Rightarrow> jsnum \<Rightarrow> jsnum" where
  "js_max (Num a) (Num b) = Num (max a b)"
| "js_max NaN _ = NaN"
| "js_max _ NaN = NaN"
| "js_max PInf _ = PInf"
| "js_max _ PInf = PInf"
| "js_max NInf y = y"
| "js_max x NInf = x"

text \<open>\<open>Math.max(...xs)\<close>: \<open>-Infinity\<close> for no argument. (The limit of the JavaScript
  engine on the number of arguments of a call is not modelled.)\<close>

definition Math_max :: "real list \<Rightarrow> jsnum" where
  "Math_max xs = foldl js_max NInf (map Num xs)"

fun js_log :: "jsnum \<Rightarrow> jsnum" where
  "js_log (Num a) = (if 0 < a then Num (ln a) else if a = 0 then NInf else NaN)"
| "js_log PInf = PInf"
| "js_log NInf = NaN"
| "js_log NaN = NaN"

fun js_sqrt :: "jsnum \<Rightarrow> jsnum" where
  "js_sqrt (Num a) = (if 0 \<le> a then Num (sqrt a) else NaN)"
| "js_sqrt PInf = PInf"
| "js_sqrt NInf = NaN"
| "js_sqrt NaN = NaN"

fun js_cos :: "jsnum \<Rightarrow> jsnum" where
  "js_cos (Num a) = Num (cos a)"
| "js_cos x = NaN"

text \<open>\<open>x || y\<close> on numbers: \<open>NaN\<close> and \<open>0\<close> are falsy.\<close>

fun js_or :: "jsnum \<Rightarrow> jsnum \<Rightarrow> jsnum" where
  "js_or (Num a) y = (if a = 0 then y else Num a)"
| "js_or NaN y = y"
| "js_or x y = x"

section \<open>Simulation engine: the waiting-time histogram\<close>

text \<open>\<open>calculateWaitingTimeDistribution\<close> (lines 137 to 150 of the simulation module).\<close>

record WaitingTimeDistribution =
  bins :: "jsnum list"
  counts :: "nat list"

text \<open>
  \<open>counts[binIndex]++\<close>. The index is \<open>Math.min(Math.floor(..), numBins - 1)\<close>: when it
  is a number it is an integer below the length of \<open>counts\<close>. An index in range
  increments that element. A negative, infinite or \<open>NaN\<close> index names a property of
  the array object that is not one of its elements (JavaScript raises no error): the
  elements of \<open>counts\<close> stay as they are.
\<close>

definition incrementCount :: "nat list \<Rightarrow> jsnum \<Rightarrow> nat list" where
  "incrementCount cs binIndex =
     (case binIndex of
        Num k \<Rightarrow> (if 0 \<le> k \<and> k < real (length cs)
                  then cs[nat \<lfloor>k\<rfloor> := cs ! nat \<lfloor>k\<rfloor> + 1] else cs)
      | _ \<Rightarrow> cs)"

text \<open>The index of the bin of a sample (line 145):
  \<open>Math.min(Math.floor(time / binSize), numBins - 1)\<close>, with the quotient rounded as
  the division of doubles rounds it.\<close>

definition binIndex :: "nat \<Rightarrow> jsnum \<Rightarrow> real \<Rightarrow> jsnum" where
  "binIndex numBins binSize time =
     js_min (js_floor (js_div_d (Num time) binSize)) (Num (real (numBins - 1)))"

definition calculateWaitingTimeDistribution :: "real list \<Rightarrow> WaitingTimeDistribution" where
  "calculateWaitingTimeDistribution waitingTimes =
     (let numBins = (20::nat);
          max = Math_max waitingTimes;
          binSize = js_div_d max (Num (real numBins));
          bins = map (\<lambda>i. js_mul_d (Num (real i)) binSize) [0..<numBins];
          counts = foldl (\<lambda>cs time. incrementCount cs (binIndex numBins binSize time))
                     (replicate numBins 0) waitingTimes
      in \<lparr>bins = bins, counts = counts\<rparr>)"

section \<open>Simulation engine: randomness\<close>

text \<open>
  \<open>Math.random()\<close> is the only input of a run besides the parameters. A run is
  modelled on a tape: the finite list of the values that the successive calls of
  \<open>Math.random()\<close> return, each in \<open>[0, 1)\<close>. A run that asks for a draw when the
  tape is used up has no outcome on that tape (\<open>DrawsExhausted\<close>): a run of the program
  that returns makes finitely many draws, so it is the run on the tape of these draws,
  and a sampling loop that rejects for ever has no outcome on any tape.
  \<open>TypeError\<close> is the exception of \<open>reduce\<close> on an empty array with no initial value.
\<close>

datatype sim_error = TypeError | DrawsExhausted

definition validTape :: "real list \<Rightarrow> bool" where
  "validTape tape = list_all (\<lambda>r. 0 \<le> r \<and> r < 1) tape"

definition Math_random :: "real list \<Rightarrow> sim_error + real \<times> real list" where
  "Math_random tape = (case tape of [] \<Rightarrow> Inl DrawsExhausted | r # rest \<Rightarrow> Inr (r, rest))"

text \<open>\<open>truncatedNormal\<close> (lines 125 to 135). Each of its two inner loops is
  \<open>let u = 0; while (u === 0) u = Math.random();\<close>\<close>

fun drawNonZero :: "real list \<Rightarrow> sim_error + real \<times> real list" where
  "drawNonZero [] = Inl DrawsExhausted"
| "drawNonZero (r # rest) = (if r = 0 then drawNonZero rest else Inr (r, rest))"

lemma drawNonZero_length:
  "drawNonZero tape = Inr (u, rest) \<Longrightarrow> length rest < length tape"
  by (induction tape) (auto split: if_splits)

text \<open>One pass of the body of the \<open>do ... while\<close> loop of \<open>truncatedNormal\<close>, after
  the two draws.\<close>

definition boxMuller :: "real \<Rightarrow> real \<Rightarrow> real \<Rightarrow> real \<Rightarrow> jsnum" where
  "boxMuller mu sigma u v =
     (let value = js_mul (js_sqrt (js_mul (Num (- 2)) (js_log (Num u))))
                         (js_cos (js_mul (js_mul (Num 2) (Num pi)) (Num v)))
      in js_add (Num mu) (js_mul (Num sigma) value))"

function truncatedNormal :: "real \<Rightarrow> real \<Rightarrow> real list \<Rightarrow> sim_error + jsnum \<times> real list" where
  "truncatedNormal mu sigma tape =
     (case drawNonZero tape of
        Inl e \<Rightarrow> Inl e
      | Inr (u, tape1) \<Rightarrow>
          (case drawNonZero tape1 of
             Inl e \<Rightarrow> Inl e
           | Inr (v, tape2) \<Rightarrow>
               (let value = boxMuller mu sigma u v
                in if js_lt value (Num 0) then truncatedNormal mu sigma tape2
                   else Inr (value, tape2))))"
  by pat_completeness auto
termination
proof (relation "measure (\<lambda>(mu, sigma, tape). length tape)")
  show "wf (measure (\<lambda>(mu, sigma, tape). length tape))" by simp
next
  fix mu sigma :: real and tape tape1 tape2 :: "real list" and u v :: real
    and x :: "real \<times> real list" and y :: "real \<times> real list" and val :: jsnum
  assume "drawNonZero tape = Inr x" and "(u, tape1) = x"
    and "drawNonZero tape1 = Inr y" and "(v, tape2) = y"
  then have "length tape1 < length tape" and "length tape2 < length tape1"
    using drawNonZero_length [of tape u tape1] drawNonZero_length [of tape1 v tape2] by auto
  then show "((mu, sigma, tape2), (mu, sigma, tape)) \<in> measure (\<lambda>(mu, sigma, tape). length tape)"
    by simp
qed

declare truncatedNormal.simps [simp del]

text \<open>The exponential inter-arrival time
  \<open>-Math.log(Math.random()) / arrivalRatePerSecond\<close> (lines 192 and 212).\<close>

definition sampleInterArrival :: "real \<Rightarrow> real list \<Rightarrow> sim_error + jsnum \<times> real list" where
  "sampleInterArrival arrivalRatePerSecond tape =
     (case Math_random tape of
        Inl e \<Rightarrow> Inl e
      | Inr (r, rest) \<Rightarrow> Inr (js_div (js_neg (js_log (Num r))) (Num arrivalRatePerSecond), rest))"

section \<open>Simulation engine: state\<close>

record Traveler =
  arrivalTime :: real
  needsScreening :: bool
  startServiceTime :: "real option"
  endServiceTime :: "real option"

record Station =
  busy :: bool
  remainingTime :: jsnum
  traveler :: "Traveler option"
  queue :: "Traveler list"

record TimeSeriesPoint =
  time :: real
  queueLengths :: "nat list"
  seniorQueueLength :: nat
  totalQueueLength :: nat

text \<open>
  The result of a run. Three of its fields have the names of fields of
  \<open>TheoreticalResults\<close> in the source (\<open>utilization\<close>, \<open>avgQueueLength\<close>,
  \<open>avgSystemTime\<close>) and one the name of a local variable of \<open>runSimulation\<close>
  (\<open>timeSeries\<close>); here these four carry the prefix \<open>result\<close>.
\<close>

record SimulationResult =
  resultTimeSeries :: "TimeSeriesPoint list"
  avgWaitingTime :: jsnum
  maxQueueLength :: jsnum
  resultUtilization :: jsnum
  resultAvgQueueLength :: jsnum
  resultAvgSystemTime :: jsnum
  waitingTimeDistribution :: WaitingTimeDistribution
  perStationUtilization :: "jsnum list"
  seniorUtilization :: jsnum

text \<open>
  The local variables of \<open>runSimulation\<close> that the loop changes, and the unread part of
  the tape. \<open>completedPrimary\<close> is an observer, not a variable of the source: it counts
  how often the completion branch of a primary station has run (the travelers that
  completed primary service), and no other field is computed from it.
\<close>

record SimState =
  primaryStations :: "Station list"
  seniorStation :: Station
  timeSeries :: "TimeSeriesPoint list"
  waitingTimes :: "real list"
  primaryServiceTimes :: "jsnum list"
  seniorServiceTimes :: "jsnum list"
  stationBusyTime :: "real list"
  seniorBusyTime :: real
  timeToNextArrival :: jsnum
  rng :: "real list"
  completedPrimary :: nat

text \<open>The constants and the initial values of \<open>runSimulation\<close> (lines 164 to 192).\<close>

definition stepSize :: real where
  "stepSize = 1 / 10"

text \<open>
  The literal \<open>0.1\<close> of the source is the double nearest to \<open>1/10\<close>, which is
  \<open>toDouble stepSize = 3602879701896397 / 2^55\<close>, a little above \<open>1/10\<close>.
  \<open>totalSteps\<close> is \<open>Math.ceil(simulationTime / stepSize)\<close> with the quotient of the
  doubles, rounded; \<open>addStepSize t\<close> is the value of \<open>t\<close> after \<open>t += stepSize\<close>, the
  sum of the doubles, rounded. The number of steps and the busy times are computed with
  these. The countdown to the next arrival, the remaining service times and the
  current time are computed with the exact \<open>stepSize\<close>, without rounding. The loop
  counter of the program is exact up to \<open>2^53\<close> steps; a horizon that asks for more
  has no run of the program that returns.
\<close>

definition totalSteps :: "SimulationParams \<Rightarrow> nat" where
  "totalSteps params = nat \<lceil>toDouble (simulationTime params / toDouble stepSize)\<rceil>"

definition addStepSize :: "real \<Rightarrow> real" where
  "addStepSize t = toDouble (t + toDouble stepSize)"

definition arrivalRatePerSecond :: "SimulationParams \<Rightarrow> real" where
  "arrivalRatePerSecond params = arrivalRate params / 60"

definition idleStation :: Station where
  "idleStation = \<lparr>busy = False, remainingTime = Num 0, traveler = None, queue = []\<rparr>"

definition initialState :: "SimulationParams \<Rightarrow> real list \<Rightarrow> sim_error + SimState" where
  "initialState params tape =
     (case sampleInterArrival (arrivalRatePerSecond params) tape of
        Inl e \<Rightarrow> Inl e
      | Inr (t, rest) \<Rightarrow>
          Inr \<lparr>primaryStations = replicate (numStations params) idleStation,
               seniorStation = idleStation,
               timeSeries = [],
               waitingTimes = [],
               primaryServiceTimes = [],
               seniorServiceTimes = [],
               stationBusyTime = replicate (numStations params) 0,
               seniorBusyTime = 0,
               timeToNextArrival = t,
               rng = rest,
               completedPrimary = 0\<rparr>)"

section \<open>Simulation engine: one step\<close>

text \<open>
  The index of the shortest queue: \<open>map\<close> to pairs of queue length and index, then
  \<open>reduce\<close> with no initial value, which starts from the first pair, replaces the
  minimum only by a strictly shorter queue, and throws on an empty array.
\<close>

definition shortestQueueIndex :: "Station list \<Rightarrow> sim_error + nat" where
  "shortestQueueIndex stations =
     (case map (\<lambda>(s, i). (length (queue s), i)) (zip stations [0..<length stations]) of
        [] \<Rightarrow> Inl TypeError
      | first # others \<Rightarrow>
          Inr (snd (foldl (\<lambda>min curr. if fst curr < fst min then curr else min) first others)))"

text \<open>Arrivals (lines 198 to 213): the countdown, the new traveler, and the next
  inter-arrival time. The draw for \<open>needsScreening\<close> comes after the scan for the
  shortest queue and before the draw of the next inter-arrival time.\<close>

definition handleArrivals :: "SimulationParams \<Rightarrow> real \<Rightarrow> SimState \<Rightarrow> sim_error + SimState" where
  "handleArrivals params currentTime s =
     (let t = js_sub (timeToNextArrival s) (Num stepSize) in
      if js_le t (Num 0) then
        (case shortestQueueIndex (primaryStations s) of
           Inl e \<Rightarrow> Inl e
         | Inr shortest \<Rightarrow>
             (case Math_random (rng s) of
                Inl e \<Rightarrow> Inl e
              | Inr (r, rest) \<Rightarrow>
                  (let station = primaryStations s ! shortest;
                       newTraveler = \<lparr>arrivalTime = currentTime,
                                      needsScreening = (r < screenProb params),
                                      startServiceTime = None, endServiceTime = None\<rparr>
                   in case sampleInterArrival (arrivalRatePerSecond params) rest of
                        Inl e \<Rightarrow> Inl e
                      | Inr (next, rest') \<Rightarrow>
                          Inr (s\<lparr>primaryStations := (primaryStations s)
                                     [shortest := station\<lparr>queue := queue station @ [newTraveler]\<rparr>],
                                 timeToNextArrival := next,
                                 rng := rest'\<rparr>))))
      else Inr (s\<lparr>timeToNextArrival := t\<rparr>))"

text \<open>The body of \<open>primaryStations.forEach\<close> for the station at \<open>index\<close>: the
  first \<open>if\<close> (lines 217 to 228) is \<open>completePrimary\<close>, the second (lines 230 to 241)
  is \<open>startPrimary\<close>, which sees the station as the first has left it.\<close>

definition completePrimary :: "nat \<Rightarrow> SimState \<Rightarrow> SimState" where
  "completePrimary index s =
     (let station = primaryStations s ! index in
      if busy station then
        (let station1 = station\<lparr>remainingTime := js_sub (remainingTime station) (Num stepSize)\<rparr>;
             s1 = s\<lparr>stationBusyTime :=
                      (stationBusyTime s)[index := addStepSize (stationBusyTime s ! index)]\<rparr>
         in if js_le (remainingTime station1) (Num 0) then
              s1\<lparr>seniorStation :=
                    (case traveler station1 of
                       Some t \<Rightarrow>
                         if needsScreening t
                         then (seniorStation s)\<lparr>queue := queue (seniorStation s) @ [t]\<rparr>
                         else seniorStation s
                     | None \<Rightarrow> seniorStation s),
                  primaryStations :=
                    (primaryStations s)[index := station1\<lparr>busy := False, traveler := None\<rparr>],
                  completedPrimary := completedPrimary s + 1\<rparr>
            else s1\<lparr>primaryStations := (primaryStations s)[index := station1]\<rparr>)
      else s)"

definition startPrimary :: "SimulationParams \<Rightarrow> real \<Rightarrow> nat \<Rightarrow> SimState \<Rightarrow> sim_error + SimState" where
  "startPrimary params currentTime index s =
     (let station = primaryStations s ! index in
      if \<not> busy station then
        (case queue station of
           [] \<Rightarrow> Inr s
         | first # remaining \<Rightarrow>
             (case truncatedNormal (mu1 params) (sigma1 params) (rng s) of
                Inl e \<Rightarrow> Inl e
              | Inr (serviceTime, rest) \<Rightarrow>
                  Inr (s\<lparr>primaryStations := (primaryStations s)
                             [index := station\<lparr>busy := True,
                                               remainingTime := serviceTime,
                                               traveler := Some (first\<lparr>startServiceTime := Some currentTime\<rparr>),
                                               queue := remaining\<rparr>],
                         waitingTimes := waitingTimes s @ [currentTime - arrivalTime first],
                         primaryServiceTimes := primaryServiceTimes s @ [serviceTime],
                         rng := rest\<rparr>)))
      else Inr s)"

definition processPrimaryStation ::
    "SimulationParams \<Rightarrow> real \<Rightarrow> nat \<Rightarrow> SimState \<Rightarrow> sim_error + SimState" where
  "processPrimaryStation params currentTime index s =
     startPrimary params currentTime index (completePrimary index s)"

fun forEachPrimary ::
    "SimulationParams \<Rightarrow> real \<Rightarrow> nat list \<Rightarrow> SimState \<Rightarrow> sim_error + SimState" where
  "forEachPrimary params currentTime [] s = Inr s"
| "forEachPrimary params currentTime (index # indices) s =
     (case processPrimaryStation params currentTime index s of
        Inl e \<Rightarrow> Inl e
      | Inr s' \<Rightarrow> forEachPrimary params currentTime indices s')"

text \<open>The senior station (lines 245 to 262), and the time series (lines 265 to 273).\<close>

definition completeSenior :: "SimState \<Rightarrow> SimState" where
  "completeSenior s =
     (let station = seniorStation s in
      if busy station then
        (let station1 = station\<lparr>remainingTime := js_sub (remainingTime station) (Num stepSize)\<rparr>;
             s1 = s\<lparr>seniorBusyTime := addStepSize (seniorBusyTime s)\<rparr>
         in if js_le (remainingTime station1) (Num 0)
            then s1\<lparr>seniorStation := station1\<lparr>busy := False, traveler := None\<rparr>\<rparr>
            else s1\<lparr>seniorStation := station1\<rparr>)
      else s)"

definition startSenior :: "SimulationParams \<Rightarrow> SimState \<Rightarrow> sim_error + SimState" where
  "startSenior params s =
     (let station = seniorStation s in
      if \<not> busy station then
        (case queue station of
           [] \<Rightarrow> Inr s
         | first # remaining \<Rightarrow>
             (case truncatedNormal (mu2 params) (sigma2 params) (rng s) of
                Inl e \<Rightarrow> Inl e
              | Inr (serviceTime, rest) \<Rightarrow>
                  Inr (s\<lparr>seniorStation := station\<lparr>busy := True,
                                                  remainingTime := serviceTime,
                                                  traveler := Some first,
                                                  queue := remaining\<rparr>,
                         seniorServiceTimes := seniorServiceTimes s @ [serviceTime],
                         rng := rest\<rparr>)))
      else Inr s)"

definition recordTimeSeries :: "real \<Rightarrow> SimState \<Rightarrow> SimState" where
  "recordTimeSeries currentTime s =
     (let lengths = map (\<lambda>st. length (queue st)) (primaryStations s);
          total = foldl (+) 0 lengths + length (queue (seniorStation s))
      in s\<lparr>timeSeries := timeSeries s @
             [\<lparr>time = currentTime, queueLengths = lengths,
               seniorQueueLength = length (queue (seniorStation s)),
               totalQueueLength = total\<rparr>]\<rparr>)"

definition simulationStep :: "SimulationParams \<Rightarrow> nat \<Rightarrow> SimState \<Rightarrow> sim_error + SimState" where
  "simulationStep params step s =
     (let currentTime = real step * stepSize in
      case handleArrivals params currentTime s of
        Inl e \<Rightarrow> Inl e
      | Inr s1 \<Rightarrow>
          (case forEachPrimary params currentTime [0..<length (primaryStations s1)] s1 of
             Inl e \<Rightarrow> Inl e
           | Inr s2 \<Rightarrow>
               (case startSenior params (completeSenior s2) of
                  Inl e \<Rightarrow> Inl e
                | Inr s3 \<Rightarrow> Inr (recordTimeSeries currentTime s3))))"

section \<open>Simulation engine: the run\<close>

text \<open>\<open>runSteps params step n s\<close>: the \<open>n\<close> iterations of the loop for the step indices
  \<open>step, step + 1, ..\<close>, from the state \<open>s\<close>.\<close>

fun runSteps :: "SimulationParams \<Rightarrow> nat \<Rightarrow> nat \<Rightarrow> SimState \<Rightarrow> sim_error + SimState" where
  "runSteps params step 0 s = Inr s"
| "runSteps params step (Suc n) s =
     (case simulationStep params step s of
        Inl e \<Rightarrow> Inl e
      | Inr s' \<Rightarrow> runSteps params (Suc step) n s')"

text \<open>The state after the first \<open>k\<close> steps of a run, and at the end of the loop.\<close>

definition stateAfter :: "SimulationParams \<Rightarrow> real list \<Rightarrow> nat \<Rightarrow> sim_error + SimState" where
  "stateAfter params tape k =
     (case initialState params tape of
        Inl e \<Rightarrow> Inl e
      | Inr s0 \<Rightarrow> runSteps params 0 k s0)"

definition finalState :: "SimulationParams \<Rightarrow> real list \<Rightarrow> sim_error + SimState" where
  "finalState params tape = stateAfter params tape (totalSteps params)"

text \<open>The aggregation after the loop (lines 276 to 294);
  \<open>js_sum\<close> is \<open>reduce((a, b) => a + b, 0)\<close>. The two utilizations are quotients of
  doubles, rounded.\<close>

definition js_sum :: "jsnum list \<Rightarrow> jsnum" where
  "js_sum xs = foldl js_add (Num 0) xs"

definition summarize :: "SimulationParams \<Rightarrow> SimState \<Rightarrow> SimulationResult" where
  "summarize params s =
     (let avgWaiting = js_or (js_div (js_sum (map Num (waitingTimes s)))
                                     (Num (real (length (waitingTimes s))))) (Num 0);
          maxQueue = Math_max (map (\<lambda>t. real (totalQueueLength t)) (timeSeries s));
          avgQueue = js_div (Num (real (foldl (\<lambda>sum point. sum + totalQueueLength point) 0
                                               (timeSeries s))))
                            (Num (real (length (timeSeries s))));
          perStation = map (\<lambda>time. js_div_d (Num time) (Num (simulationTime params)))
                           (stationBusyTime s);
          senior = js_div_d (Num (seniorBusyTime s)) (Num (simulationTime params))
      in \<lparr>resultTimeSeries = timeSeries s,
          avgWaitingTime = avgWaiting,
          maxQueueLength = maxQueue,
          resultUtilization = js_div (js_sum perStation) (Num (real (numStations params))),
          resultAvgQueueLength = avgQueue,
          resultAvgSystemTime =
            js_add (js_add avgWaiting
                      (js_or (js_div (js_sum (primaryServiceTimes s))
                                     (Num (real (length (primaryServiceTimes s))))) (Num 0)))
                   (if 0 < length (seniorServiceTimes s)
                    then js_div (js_sum (seniorServiceTimes s))
                                (Num (real (length (seniorServiceTimes s))))
                    else Num 0),
          waitingTimeDistribution = calculateWaitingTimeDistribution (waitingTimes s),
          perStationUtilization = perStation,
          seniorUtilization = senior\<rparr>)"

definition runSimulation :: "SimulationParams \<Rightarrow> real list \<Rightarrow> sim_error + SimulationResult" where
  "runSimulation params tape =
     (case finalState params tape of
        Inl e \<Rightarrow> Inl e
      | Inr s \<Rightarrow> Inr (summarize params s))"

section \<open>Simulation engine: predicates on states\<close>

text \<open>A station is busy exactly when it holds a traveler.\<close>

definition stationOk :: "Station \<Rightarrow> bool" where
  "stationOk st \<longleftrightarrow> (busy st \<longleftrightarrow> traveler st \<noteq> None)"

definition busyIffTraveler :: "SimState \<Rightarrow> bool" where
  "busyIffTraveler s \<longleftrightarrow>
     list_all stationOk (primaryStations s) \<and> stationOk (seniorStation s)"

text \<open>The waiting-time samples are the travelers that completed primary service and
  the travelers in service at a primary station.\<close>

definition startedIsCompletedPlusBusy :: "SimState \<Rightarrow> bool" where
  "startedIsCompletedPlusBusy s \<longleftrightarrow>
     length (waitingTimes s) = completedPrimary s + length (filter busy (primaryStations s))"

text \<open>\<open>accumulateBusy k\<close> is the busy time of a station that has been busy in \<open>k\<close>
  steps: the value of a variable that starts at \<open>0\<close> after \<open>k\<close> executions of
  \<open>+= stepSize\<close>. Every accumulated busy time is such a value, for at most \<open>b\<close>
  steps.\<close>

fun accumulateBusy :: "nat \<Rightarrow> real" where
  "accumulateBusy 0 = 0"
| "accumulateBusy (Suc k) = addStepSize (accumulateBusy k)"

text \<open>\<open>busyBound k\<close> is \<open>k\<close> times the double \<open>0.1\<close>, increased by the largest relative
  error of \<open>k\<close> rounded additions, \<open>2^-53\<close> each.\<close>

definition busyBound :: "nat \<Rightarrow> real" where
  "busyBound k = real k * toDouble stepSize * (1 + 1 / 2 ^ 53) ^ k"

definition busyTimesAccumulated :: "nat \<Rightarrow> SimState \<Rightarrow> bool" where
  "busyTimesAccumulated b s \<longleftrightarrow>
     length (stationBusyTime s) = length (primaryStations s) \<and>
     list_all (\<lambda>t. \<exists>k\<le>b. t = accumulateBusy k) (stationBusyTime s) \<and>
     (\<exists>k\<le>b. seniorBusyTime s = accumulateBusy k)"

definition allIdle :: "SimState \<Rightarrow> bool" where
  "allIdle s \<longleftrightarrow> list_all (\<lambda>st. \<not> busy st) (primaryStations s) \<and> \<not> busy (seniorStation s)"




text \<open>A finite number that is not negative; the service durations sampled so far are
  such numbers, and the rest of the tape holds draws from \<open>[0, 1)\<close>.\<close>

definition nonNegative :: "jsnum \<Rightarrow> bool" where
  "nonNegative d = (case d of Num x \<Rightarrow> 0 \<le> x | _ \<Rightarrow> False)"

definition serviceTimesOk :: "SimState \<Rightarrow> bool" where
  "serviceTimesOk s \<longleftrightarrow>
     validTape (rng s) \<and> list_all nonNegative (primaryServiceTimes s) \<and>
     list_all nonNegative (seniorServiceTimes s)"

section \<open>An example run\<close>

text \<open>
  The default parameters of the application with a horizon of one step, on the tape
  \<open>[99/100, 1/2, u, 1/2, 1/4]\<close>: the first draw makes a traveler arrive in step 0
  (\<open>-ln (99/100) / (1/6) \<le> 0.1\<close>), the second decides that it needs no screening, the
  third, \<open>u\<close>, is the draw of the next inter-arrival time, and the last two are the
  draws of the service time of the traveler at station 0, which is \<open>30\<close>. The states
  are those after the initialisation, after the arrival, after the primary stations,
  and at the end of the step.
\<close>

definition exampleParams :: SimulationParams where
  "exampleParams = \<lparr>numStations = 2, arrivalRate = 10, mu1 = 30, sigma1 = 10, mu2 = 120,
     sigma2 = 120, screenProb = 3 / 100, simulationTime = 1 / 10\<rparr>"

definition exampleTape :: "real \<Rightarrow> real list" where
  "exampleTape u = [99 / 100, 1 / 2, u, 1 / 2, 1 / 4]"

definition exampleInitial :: "real \<Rightarrow> SimState" where
  "exampleInitial u =
     \<lparr>primaryStations = [idleStation, idleStation], seniorStation = idleStation,
      timeSeries = [], waitingTimes = [], primaryServiceTimes = [], seniorServiceTimes = [],
      stationBusyTime = [0, 0], seniorBusyTime = 0,
      timeToNextArrival = Num (- ln (99 / 100) / (10 / 60)),
      rng = [1 / 2, u, 1 / 2, 1 / 4], completedPrimary = 0\<rparr>"

definition exampleArrived :: "real \<Rightarrow> SimState" where
  "exampleArrived u =
     (exampleInitial u)
       \<lparr>primaryStations :=
          [idleStation\<lparr>queue := [\<lparr>arrivalTime = 0, needsScreening = False,
                                   startServiceTime = None, endServiceTime = None\<rparr>]\<rparr>,
           idleStation],
        timeToNextArrival := js_div (js_neg (js_log (Num u))) (Num (10 / 60)),
        rng := [1 / 2, 1 / 4]\<rparr>"

definition exampleServing :: "real \<Rightarrow> SimState" where
  "exampleServing u =
     (exampleArrived u)
       \<lparr>primaryStations :=
          [\<lparr>busy = True, remainingTime = Num 30,
            traveler = Some \<lparr>arrivalTime = 0, needsScreening = False,
                             startServiceTime = Some 0, endServiceTime = None\<rparr>,
            queue = []\<rparr>,
           idleStation],
        waitingTimes := [0],
        primaryServiceTimes := [Num 30],
        rng := []\<rparr>"

definition exampleFinal :: "real \<Rightarrow> SimState" where
  "exampleFinal u =
     (exampleServing u)
       \<lparr>timeSeries := [\<lparr>time = 0, queueLengths = [0, 0], seniorQueueLength = 0,
                        totalQueueLength = 0\<rparr>]\<rparr>"

text \<open>
  The same run with a longer horizon, for \<open>u = 1/2\<close>: the next arrival is due after
  \<open>6 ln 2\<close> seconds, more than four seconds, and the service at station 0 takes 30
  seconds, so for some forty steps after step 0 nothing happens but the countdowns: the
  station 0 is busy, the station 1 and the senior station are idle. \<open>exampleQuiet n ts\<close>
  is the state after \<open>n\<close> such steps, with the time series \<open>ts\<close>.
  \<open>overshootParams\<close> are the parameters of the example with the horizon
  \<open>1.9000000000000004\<close>, which is the double \<open>8556839292003944 / 2^52\<close>.
\<close>

definition exampleQuiet :: "nat \<Rightarrow> TimeSeriesPoint list \<Rightarrow> SimState" where
  "exampleQuiet n ts =
     (exampleFinal (1 / 2))
       \<lparr>primaryStations :=
          [\<lparr>busy = True, remainingTime = Num (30 - real n * stepSize),
            traveler = Some \<lparr>arrivalTime = 0, needsScreening = False,
                             startServiceTime = Some 0, endServiceTime = None\<rparr>,
            queue = []\<rparr>,
           idleStation],
        timeSeries := ts,
        stationBusyTime := [accumulateBusy n, 0],
        timeToNextArrival := Num (- ln (1 / 2) / (10 / 60) - real n * stepSize)\<rparr>"

definition overshootParams :: SimulationParams where
  "overshootParams = exampleParams\<lparr>simulationTime := 8556839292003944 / 2 ^ 52\<rparr>"

section \<open>A second example run: a traveler that queues\<close>

text \<open>
  One station, a horizon of three steps and a mean service time of \<open>0.15\<close> seconds
  (both draws \<open>v = 1/4\<close> of the service times give \<open>cos (2 \<pi> v) = 0\<close>, so both service
  times are the mean). Traveler A arrives in step 0 and is served at once. Traveler B
  arrives in step 1, when A has \<open>0.05\<close> seconds left, and queues. In step 2 the service
  of A completes and that of B starts, after a wait of \<open>0.1\<close> seconds. The station is
  busy in the steps 1 and 2. The states are those after the initialisation and at the end
  of the steps 0, 1 and 2.
\<close>

definition queueParams :: SimulationParams where
  "queueParams = \<lparr>numStations = 1, arrivalRate = 10, mu1 = 3 / 20, sigma1 = 1 / 20, mu2 = 120,
     sigma2 = 120, screenProb = 3 / 100, simulationTime = 3 / 10\<rparr>"

definition queueTape :: "real list" where
  "queueTape = [99 / 100, 1 / 2, 99 / 100, 1 / 2, 1 / 4, 1 / 2, 1 / 2, 1 / 2, 1 / 4]"

definition travelerA :: Traveler where
  "travelerA = \<lparr>arrivalTime = 0, needsScreening = False, startServiceTime = None,
     endServiceTime = None\<rparr>"

definition travelerB :: Traveler where
  "travelerB = \<lparr>arrivalTime = 1 / 10, needsScreening = False, startServiceTime = None,
     endServiceTime = None\<rparr>"

definition queueState0 :: SimState where
  "queueState0 =
     \<lparr>primaryStations = [idleStation], seniorStation = idleStation,
      timeSeries = [], waitingTimes = [], primaryServiceTimes = [], seniorServiceTimes = [],
      stationBusyTime = [0], seniorBusyTime = 0,
      timeToNextArrival = Num (- ln (99 / 100) / (10 / 60)),
      rng = [1 / 2, 99 / 100, 1 / 2, 1 / 4, 1 / 2, 1 / 2, 1 / 2, 1 / 4],
      completedPrimary = 0\<rparr>"

definition queueState1 :: SimState where
  "queueState1 =
     queueState0
       \<lparr>primaryStations :=
          [\<lparr>busy = True, remainingTime = Num (3 / 20),
            traveler = Some (travelerA\<lparr>startServiceTime := Some 0\<rparr>), queue = []\<rparr>],
        timeSeries := [\<lparr>time = 0, queueLengths = [0], seniorQueueLength = 0,
                        totalQueueLength = 0\<rparr>],
        waitingTimes := [0],
        primaryServiceTimes := [Num (3 / 20)],
        timeToNextArrival := Num (- ln (99 / 100) / (10 / 60)),
        rng := [1 / 2, 1 / 2, 1 / 2, 1 / 4]\<rparr>"

definition queueState2 :: SimState where
  "queueState2 =
     queueState1
       \<lparr>primaryStations :=
          [\<lparr>busy = True, remainingTime = Num (3 / 20 - 1 / 10),
            traveler = Some (travelerA\<lparr>startServiceTime := Some 0\<rparr>), queue = [travelerB]\<rparr>],
        timeSeries := timeSeries queueState1 @
          [\<lparr>time = 1 / 10, queueLengths = [1], seniorQueueLength = 0, totalQueueLength = 1\<rparr>],
        stationBusyTime := [accumulateBusy 1],
        timeToNextArrival := Num (- ln (1 / 2) / (10 / 60)),
        rng := [1 / 2, 1 / 4]\<rparr>"

definition queueState3 :: SimState where
  "queueState3 =
     queueState2
       \<lparr>primaryStations :=
          [\<lparr>busy = True, remainingTime = Num (3 / 20),
            traveler = Some (travelerB\<lparr>startServiceTime := Some (2 / 10)\<rparr>), queue = []\<rparr>],
        timeSeries := timeSeries queueState2 @
          [\<lparr>time = 2 / 10, queueLengths = [0], seniorQueueLength = 0, totalQueueLength = 0\<rparr>],
        waitingTimes := [0, 1 / 10],
        primaryServiceTimes := [Num (3 / 20), Num (3 / 20)],
        stationBusyTime := [accumulateBusy 2],
        timeToNextArrival := Num (- ln (1 / 2) / (10 / 60) - 1 / 10),
        rng := [],
        completedPrimary := 1\<rparr>"

section \<open>Properties of the rounding of doubles\<close>

lemma roundHalfEven_of_int: "roundHalfEven (of_int m) = m"
  by (simp add: roundHalfEven_def)

lemma roundHalfEven_ge_floor: "\<lfloor>x\<rfloor> \<le> roundHalfEven x"
  by (simp add: roundHalfEven_def Let_def)

lemma roundHalfEven_le: "real_of_int (roundHalfEven x) \<le> x + 1 / 2"
  unfolding roundHalfEven_def Let_def by (auto; linarith)

lemma roundHalfEven_ge: "x - 1 / 2 \<le> real_of_int (roundHalfEven x)"
  unfolding roundHalfEven_def Let_def by (auto; linarith)

lemma roundHalfEven_le_int: "x \<le> of_int m \<Longrightarrow> roundHalfEven x \<le> m"
  unfolding roundHalfEven_def Let_def
  by (auto simp: floor_le_iff; linarith)

lemma floor_log2: 
  assumes "0 < x" "2 powi k \<le> x" "x < 2 powi (k + 1)"
  shows "\<lfloor>log 2 x\<rfloor> = k"
proof -
  have "(2::real) powr (of_int k) = 2 powi k" "(2::real) powr (of_int k + 1) = 2 powi (k + 1)"
    using powr_real_of_int' [of "2::real" k] powr_real_of_int' [of "2::real" "k + 1"] by simp_all
  thus ?thesis using assms floor_log_eq_powr_iff [of x 2 k] by simp
qed

lemma floor_log2_bounds:
  assumes "0 < x"
  shows "2 powi \<lfloor>log 2 x\<rfloor> \<le> x" "x < 2 powi (\<lfloor>log 2 x\<rfloor> + 1)"
proof -
  define k where "k = \<lfloor>log 2 x\<rfloor>"
  have e: "(2::real) powr (of_int k) = 2 powi k" "(2::real) powr (of_int k + 1) = 2 powi (k + 1)"
    using powr_real_of_int' [of "2::real" k] powr_real_of_int' [of "2::real" "k + 1"] by simp_all
  have "2 powr (of_int k) \<le> x \<and> x < 2 powr (of_int k + 1)"
    using floor_log_eq_powr_iff [of x 2 k] assms by (simp add: k_def)
  thus "2 powi \<lfloor>log 2 x\<rfloor> \<le> x" "x < 2 powi (\<lfloor>log 2 x\<rfloor> + 1)"
    using e by (simp_all add: k_def)
qed

lemma toDouble_zero: "toDouble 0 = 0"
  by (simp add: toDouble_def)

lemma toDouble_nonneg: "0 \<le> x \<Longrightarrow> 0 \<le> toDouble x"
proof -
  assume x: "0 \<le> x"
  have "0 \<le> x / 2 powi ulpExponent x" using x by simp
  hence "0 \<le> \<lfloor>x / 2 powi ulpExponent x\<rfloor>" by simp
  hence "0 \<le> roundHalfEven (x / 2 powi ulpExponent x)"
    using roundHalfEven_ge_floor [of "x / 2 powi ulpExponent x"] by linarith
  thus ?thesis by (simp add: toDouble_def)
qed

lemma toDouble_eval:
  assumes "0 < x" "2 ^ 52 \<le> x * 2 ^ p" "x * 2 ^ p < 2 ^ 53" "p \<le> 1074"
      and "roundHalfEven (x * 2 ^ p) = n"
  shows "toDouble x = of_int n / 2 ^ p"
proof -
  have p2: "(2::real) powi (- int p) = 1 / 2 ^ p"
    by (simp add: power_int_minus_divide)
  have a: "2 powi (52 - int p) \<le> x"
  proof -
    have "(2::real) powi (52 - int p) = 2 ^ 52 / 2 ^ p"
      by (simp add: power_int_diff)
    also have "\<dots> \<le> x" using assms(2) by (simp add: field_simps)
    finally show ?thesis .
  qed
  have b: "x < 2 powi (52 - int p + 1)"
  proof -
    have "(2::real) powi (52 - int p + 1) = 2 ^ 53 / 2 ^ p"
      using power_int_diff [of "2::real" 53 "int p"] by simp
    moreover have "x < 2 ^ 53 / 2 ^ p" using assms(3) by (simp add: field_simps)
    ultimately show ?thesis by simp
  qed
  have "\<lfloor>log 2 x\<rfloor> = 52 - int p" by (rule floor_log2 [OF assms(1) a b])
  hence "ulpExponent x = - int p" using assms(1,4) by (simp add: ulpExponent_def)
  thus ?thesis using assms(1,5) by (simp add: toDouble_def p2)
qed

lemma powi_nat: "0 \<le> j \<Longrightarrow> (x::real) powi j = x ^ nat j"
  by (simp add: power_int_def)

lemma ulpExponent_normal:
  assumes "0 < x" "2 powi k \<le> x" "- 1022 \<le> k"
  shows "ulpExponent x = \<lfloor>log 2 x\<rfloor> - 52" "k \<le> \<lfloor>log 2 x\<rfloor>"
proof -
  have "\<not> \<lfloor>log 2 x\<rfloor> < k"
  proof
    assume "\<lfloor>log 2 x\<rfloor> < k"
    hence "\<lfloor>log 2 x\<rfloor> + 1 \<le> k" by simp
    hence "(2::real) powi (\<lfloor>log 2 x\<rfloor> + 1) \<le> 2 powi k"
      by (intro power_int_increasing) simp_all
    with floor_log2_bounds(2) [OF assms(1)] assms(2) show False by linarith
  qed
  thus k: "k \<le> \<lfloor>log 2 x\<rfloor>" by simp
  with assms(1,3) show "ulpExponent x = \<lfloor>log 2 x\<rfloor> - 52"
    by (simp add: ulpExponent_def)
qed

lemma toDouble_ge_pow2:
  assumes "2 powi k \<le> x" "- 1022 \<le> k"
  shows "2 powi k \<le> toDouble x"
proof -
  have x: "0 < x" using assms(1) by (smt (verit) zero_less_power_int)
  define e where "e = \<lfloor>log 2 x\<rfloor>"
  have u: "ulpExponent x = e - 52" and ke: "k \<le> e"
    using ulpExponent_normal [OF x assms] by (simp_all add: e_def)
  have le: "2 powi e \<le> x" using floor_log2_bounds(1) [OF x] by (simp add: e_def)
  have split: "(2::real) powi e = 2 ^ 52 * 2 powi (e - 52)"
    using power_int_add [of "2::real" 52 "e - 52"] by simp
  have pos: "(0::real) < 2 powi (e - 52)" by simp
  have "2 ^ 52 \<le> x / 2 powi (e - 52)"
    using le pos by (simp add: split pos_le_divide_eq)
  hence "(2::int) ^ 52 \<le> \<lfloor>x / 2 powi (e - 52)\<rfloor>" by (simp add: le_floor_iff)
  hence "(2::int) ^ 52 \<le> roundHalfEven (x / 2 powi (e - 52))"
    using roundHalfEven_ge_floor [of "x / 2 powi (e - 52)"] by linarith
  hence "(2::real) ^ 52 \<le> of_int (roundHalfEven (x / 2 powi (e - 52)))"
    by (metis of_int_le_iff of_int_numeral of_int_power)
  hence "(2::real) ^ 52 * 2 powi (e - 52)
      \<le> of_int (roundHalfEven (x / 2 powi (e - 52))) * 2 powi (e - 52)"
    using pos by (intro mult_right_mono) simp_all
  hence "2 powi e \<le> toDouble x" using x by (simp add: toDouble_def u split)
  moreover have "(2::real) powi k \<le> 2 powi e" using ke by (intro power_int_increasing) simp_all
  ultimately show ?thesis by linarith
qed

lemma toDouble_le_pow2:
  assumes "x \<le> 2 powi k" "- 1074 \<le> k"
  shows "toDouble x \<le> 2 powi k"
proof (cases "0 < x")
  case False
  hence "x = 0 \<or> x < 0" by linarith
  thus ?thesis
  proof
    assume "x = 0" thus ?thesis by (simp add: toDouble_def)
  next
    assume neg: "x < 0"
    have "x / 2 powi ulpExponent x \<le> of_int 0" using neg by (simp add: divide_le_0_iff)
    hence "roundHalfEven (x / 2 powi ulpExponent x) \<le> 0" by (rule roundHalfEven_le_int)
    hence "of_int (roundHalfEven (x / 2 powi ulpExponent x)) * (2::real) powi ulpExponent x \<le> 0"
      by (simp add: mult_le_0_iff)
    thus ?thesis using neg by (simp add: toDouble_def) (smt (verit) zero_less_power_int)
  qed
next
  case x: True
  define ue where "ue = ulpExponent x"
  have "\<lfloor>log 2 x\<rfloor> \<le> k"
  proof (rule ccontr)
    assume "\<not> \<lfloor>log 2 x\<rfloor> \<le> k"
    hence "k + 1 \<le> \<lfloor>log 2 x\<rfloor>" by simp
    hence "(2::real) powi (k + 1) \<le> 2 powi \<lfloor>log 2 x\<rfloor>"
      by (intro power_int_increasing) simp_all
    moreover have "(2::real) powi k < 2 powi (k + 1)"
      by (intro power_int_strict_increasing) simp_all
    ultimately show False using floor_log2_bounds(1) [OF x] assms(1) by linarith
  qed
  hence uek: "ue \<le> k" using assms(2) x by (simp add: ue_def ulpExponent_def)
  define m where "m = nat (k - ue)"
  have "(2::real) powi (k - ue) = 2 ^ m" using uek by (simp add: m_def powi_nat)
  hence split: "(2::real) powi k = 2 ^ m * 2 powi ue"
    using power_int_add [of "2::real" "k - ue" ue] by simp
  have pos: "(0::real) < 2 powi ue" by simp
  have "x / 2 powi ue \<le> 2 ^ m" using assms(1) pos by (simp add: split pos_divide_le_eq)
  hence "x / 2 powi ue \<le> of_int (2 ^ m)" by simp
  hence "roundHalfEven (x / 2 powi ue) \<le> 2 ^ m" by (rule roundHalfEven_le_int)
  hence "real_of_int (roundHalfEven (x / 2 powi ue)) \<le> 2 ^ m"
    by (metis of_int_le_iff of_int_numeral of_int_power)
  hence "of_int (roundHalfEven (x / 2 powi ue)) * (2::real) powi ue \<le> 2 ^ m * 2 powi ue"
    using pos by (intro mult_right_mono) simp_all
  thus ?thesis using x by (simp add: toDouble_def split ue_def)
qed

lemma toDouble_of_nat:
  assumes "n < 2 ^ 53"
  shows "toDouble (real n) = real n"
proof (cases "n = 0")
  case True thus ?thesis by (simp add: toDouble_def)
next
  case False
  hence x: "0 < real n" by simp
  define e where "e = \<lfloor>log 2 (real n)\<rfloor>"
  have "(2::real) powi 0 \<le> real n" using False by simp
  from ulpExponent_normal [OF x this] have u: "ulpExponent (real n) = e - 52" and e0: "0 \<le> e"
    by (simp_all add: e_def)
  have "e \<le> 52"
  proof (rule ccontr)
    assume "\<not> e \<le> 52"
    hence "53 \<le> e" by simp
    hence "(2::real) powi 53 \<le> 2 powi e" by (intro power_int_increasing) simp_all
    moreover have "2 powi e \<le> real n" using floor_log2_bounds(1) [OF x] by (simp add: e_def)
    moreover have "real n < 2 ^ 53" using assms by (metis of_nat_less_iff of_nat_numeral of_nat_power)
    ultimately show False by simp
  qed
  define m where "m = nat (52 - e)"
  have im: "int m = 52 - e" using \<open>e \<le> 52\<close> by (simp add: m_def)
  have "(2::real) powi (52 - e) = 2 ^ m" using \<open>e \<le> 52\<close> by (simp add: m_def powi_nat)
  moreover have "(2::real) powi (- (52 - e)) = 1 / 2 powi (52 - e)"
    by (rule power_int_minus_divide)
  ultimately have inv: "(2::real) powi (e - 52) = 1 / 2 ^ m" by simp
  have "real n / 2 powi (e - 52) = of_int (int n * 2 ^ m)" by (simp add: inv)
  hence "roundHalfEven (real n / 2 powi (e - 52)) = int n * 2 ^ m"
    using roundHalfEven_of_int by metis
  thus ?thesis using x by (simp add: toDouble_def u inv)
qed

lemma toDouble_le_rel:
  assumes "2 powi (- 1022) \<le> x"
  shows "toDouble x \<le> x * (1 + 1 / 2 ^ 53)"
proof -
  have x: "0 < x" using assms by (smt (verit) zero_less_power_int)
  define e where "e = \<lfloor>log 2 x\<rfloor>"
  have u: "ulpExponent x = e - 52"
    using ulpExponent_normal(1) [OF x assms] by (simp add: e_def)
  have le: "2 powi e \<le> x" using floor_log2_bounds(1) [OF x] by (simp add: e_def)
  have split: "(2::real) powi e = 2 ^ 52 * 2 powi (e - 52)"
    using power_int_add [of "2::real" 52 "e - 52"] by simp
  have pos: "(0::real) < 2 powi (e - 52)" by simp
  have "real_of_int (roundHalfEven (x / 2 powi (e - 52))) \<le> x / 2 powi (e - 52) + 1 / 2"
    by (rule roundHalfEven_le)
  hence "real_of_int (roundHalfEven (x / 2 powi (e - 52))) * 2 powi (e - 52)
      \<le> (x / 2 powi (e - 52) + 1 / 2) * 2 powi (e - 52)"
    using pos by (intro mult_right_mono) simp_all
  also have "\<dots> = x + 2 powi (e - 52) / 2" using pos by (simp add: field_simps)
  also have "2 powi (e - 52) / 2 \<le> x / 2 ^ 53"
    using le by (simp add: split)
  finally have "real_of_int (roundHalfEven (x / 2 powi (e - 52))) * 2 powi (e - 52)
      \<le> x + x / 2 ^ 53" by simp
  thus ?thesis using x by (simp add: toDouble_def u algebra_simps)
qed

lemma toDouble_stepSize: "toDouble (1 / 10) = 3602879701896397 / 36028797018963968"
  by (rule trans [OF toDouble_eval [where p = 56 and n = 7205759403792794]])
     (simp_all add: roundHalfEven_def)

lemma js_round_zero: "js_round 0 = Num 0"
  by (simp add: js_round_def toDouble_def)

lemma js_round_nonneg:
  assumes "0 \<le> x"
  shows "(\<exists>d. js_round x = Num d \<and> 0 \<le> d) \<or> js_round x = PInf"
  using toDouble_nonneg [OF assms] by (auto simp: js_round_def Let_def)


lemma js_round_of_nat:
  assumes "n < 2 ^ 53"
  shows "js_round (real n) = Num (real n)"
proof -
  have "real n < 2 ^ 53" using assms by (metis of_nat_less_iff of_nat_numeral of_nat_power)
  moreover have "(2::real) ^ 53 \<le> 2 ^ 1024" by (rule power_increasing) simp_all
  ultimately have "\<not> 2 ^ 1024 \<le> \<bar>real n\<bar>" by simp
  thus ?thesis by (simp add: js_round_def Let_def toDouble_of_nat [OF assms])
qed

lemma js_range_Num:
  assumes "2 powi (- 1022) \<le> x" "x \<le> 2 powi 1023"
  shows "js_range x = Num x"
proof -
  have lo: "(2::real) powi (- 1022) \<le> toDouble x" by (rule toDouble_ge_pow2 [OF assms(1)]) simp
  have hi: "toDouble x \<le> 2 powi 1023" by (rule toDouble_le_pow2 [OF assms(2)]) simp
  have "(0::real) < 2 powi (- 1022)" by simp
  with lo have pos: "0 < toDouble x" by linarith
  have "(2::real) powi 1023 < 2 powi 1024" by (intro power_int_strict_increasing) simp_all
  moreover have "(2::real) powi 1024 = 2 ^ 1024" by (simp add: powi_nat)
  ultimately have "\<not> 2 ^ 1024 \<le> \<bar>toDouble x\<bar>" using hi pos by simp
  thus ?thesis using pos by (simp add: js_range_def js_round_def Let_def)
qed


section \<open>Properties of the theoretical model\<close>

subsection \<open>Auxiliary facts\<close>

lemma fact_18: "fact n < (2::nat) ^ 53" if "n \<le> 18"
proof -
  have "(fact n :: nat) \<le> fact 18" using that by (rule fact_mono)
  also have "(fact 18 :: nat) < 2 ^ 53" by (simp add: fact_numeral)
  finally show ?thesis .
qed

lemma factorial_exact: "n \<le> 18 \<Longrightarrow> factorial n = Num (fact n)"
proof (induction n rule: factorial.induct)
  case (1 n)
  show ?case
  proof (cases "n \<le> 1")
    case True
    then have "factorial n = Num 1" by (simp add: factorial.simps [of n])
    moreover from True have "n = 0 \<or> n = 1" by arith
    then have "(fact n :: real) = 1" by auto
    ultimately show ?thesis by simp
  next
    case False
    then obtain m where m: "n = Suc m" by (cases n) auto
    from False 1 have prev: "factorial m = Num (fact m)" by (simp add: m)
    have r: "js_round (real (fact (Suc m))) = Num (real (fact (Suc m)))"
      using fact_18 [of "Suc m"] "1.prems" m by (intro js_round_of_nat) simp
    have e: "real (Suc m) * fact m = real (fact (Suc m))" by (simp add: algebra_simps)
    have "factorial (Suc m) = js_mul_d (Num (real (Suc m))) (factorial m)"
      using False m by (simp add: factorial.simps [of "Suc m"])
    also have "\<dots> = js_round (real (fact (Suc m)))"
      by (simp only: prev js_mul_d_def js_mul.simps jsnum.case e)
    finally have "factorial (Suc m) = Num (real (fact (Suc m)))" by (simp only: r)
    thus ?thesis unfolding m by (simp only: of_nat_fact)
  qed
qed





lemma js_range_ge_1:
  assumes "1 \<le> x" "x \<le> 2 ^ 1023"
  shows "js_range x = Num x"
proof (rule js_range_Num)
  have "(2::real) powi (- 1022) \<le> 2 powi 0" by (intro power_int_increasing) simp_all
  with assms(1) show "2 powi (- 1022) \<le> x" by simp
  show "x \<le> 2 powi 1023" using assms(2) by (simp add: powi_nat)
qed

subsection \<open>The documented example (C1)\<close>

text \<open>
  Claim C1, as the specification states it: for \<open>arrivalRate = 10\<close>, \<open>mu1 = 30000\<close> and
  \<open>numStations = 2\<close> the traffic intensity \<open>\<rho>\<close> is below 1 and \<open>Lq\<close>, \<open>Wq\<close>,
  \<open>Ws\<close> are finite and non-negative. The code gives \<open>\<lambda> = 1/6\<close>, \<open>\<mu> = 1/30\<close> and
  \<open>\<rho> = (1/6) / (2/30) = 5/2\<close>, so the claim fails: the statement below is its negation
  at these parameters.
\<close>

theorem calculateTheoretical_example_not_stable:
  "\<not> (let r = calculateTheoretical
              \<lparr>numStations = 2, arrivalRate = 10, mu1 = 30000, sigma1 = 10, mu2 = 120,
               sigma2 = 120, screenProb = 3 / 100, simulationTime = 3600\<rparr>
       in js_lt (utilization r) (Num 1) \<and> js_le (Num 0) (avgQueueLength r) \<and>
          js_le (Num 0) (avgWaitTime r) \<and> js_le (Num 0) (avgSystemTime r))"
proof -
  have p: "js_range 5 = Num 5" "js_range 25 = Num 25"
    by (simp_all add: js_range_ge_1)
  have f: "factorial 0 = Num 1" "factorial (Suc 0) = Num 1" "factorial (Suc (Suc 0)) = Num 2"
    using factorial_exact [of 0] factorial_exact [of "Suc 0"] factorial_exact [of "Suc (Suc 0)"]
    by simp_all
  show ?thesis
    by (simp add: calculateTheoretical_def Let_def js_sub_def p f
        upt_rec [of 0] upt_rec [of 1] upt_rec [of 2] eval_nat_numeral)
qed

text \<open>
  Claim C1, amended: for \<open>arrivalRate = 10\<close>, \<open>mu1 = 30000\<close> and \<open>numStations = 2\<close>
  (whatever the other parameters) \<open>calculateTheoretical\<close> returns the finite values
  \<open>\<rho> = 5/2\<close>, \<open>Lq = -125/21\<close>, \<open>Wq = -250/7\<close> and \<open>Ws = -40/7\<close>: the traffic
  intensity is above 1 and the three queue metrics are finite but negative.
\<close>

theorem calculateTheoretical_example_values:
  "calculateTheoretical (p\<lparr>numStations := 2, arrivalRate := 10, mu1 := 30000\<rparr>) =
     \<lparr>utilization = Num (5 / 2), avgQueueLength = Num (- (125 / 21)),
      avgWaitTime = Num (- (250 / 7)), avgSystemTime = Num (- (40 / 7))\<rparr>"
proof -
  have p: "js_range 5 = Num 5" "js_range 25 = Num 25"
    by (simp_all add: js_range_ge_1)
  have f: "factorial 0 = Num 1" "factorial (Suc 0) = Num 1" "factorial (Suc (Suc 0)) = Num 2"
    using factorial_exact [of 0] factorial_exact [of "Suc 0"] factorial_exact [of "Suc (Suc 0)"]
    by simp_all
  show ?thesis
    by (simp add: calculateTheoretical_def Let_def js_sub_def p f
        upt_rec [of 0] upt_rec [of 1] upt_rec [of 2] eval_nat_numeral)
qed

subsection \<open>The closed form (C4)\<close>




section \<open>Properties of the waiting-time histogram\<close>

subsection \<open>Auxiliary facts\<close>

lemma foldl_js_max_Num:
  "foldl js_max (Num a) (map Num xs) = Num (Max (insert a (set xs)))"
proof (induction xs arbitrary: a)
  case Nil
  then show ?case by simp
next
  case (Cons x xs)
  have "Max (insert (max a x) (set xs)) = Max (insert a (insert x (set xs)))"
    by (cases "set xs = {}") (simp_all add: max.assoc)
  with Cons show ?case by simp
qed

lemma Math_max_Cons: "Math_max (x # xs) = Num (Max (set (x # xs)))"
  by (simp add: Math_max_def foldl_js_max_Num)

lemma Math_max_nonempty: "xs \<noteq> [] \<Longrightarrow> Math_max xs = Num (Max (set xs))"
  by (cases xs) (auto simp: Math_max_Cons)

lemma counts_calculateWaitingTimeDistribution:
  "counts (calculateWaitingTimeDistribution ws) =
     foldl (\<lambda>cs time. incrementCount cs (binIndex 20 (js_div_d (Math_max ws) (Num 20)) time))
           (replicate 20 0) ws"
  by (simp add: calculateWaitingTimeDistribution_def Let_def)






lemma foldl_incrementCount_NaN:
  "list_all (\<lambda>t. t = 0) ws \<Longrightarrow>
     foldl (\<lambda>cs time. incrementCount cs (binIndex 20 (Num 0) time)) cs ws = cs"
  by (induction ws arbitrary: cs) (simp_all add: incrementCount_def binIndex_def js_div_d_def)

lemma histogram_all_zero:
  assumes "ws \<noteq> []" and "list_all (\<lambda>t. t = 0) ws"
  shows "counts (calculateWaitingTimeDistribution ws) = replicate 20 0"
proof -
  from assms have "set ws = {0}" by (cases ws) (auto simp: list_all_iff)
  with assms(1) have "Math_max ws = Num 0" by (simp add: Math_max_nonempty)
  then have b: "js_div_d (Math_max ws) (Num 20) = Num 0"
    by (simp add: js_div_d_def js_round_zero)
  show ?thesis
    unfolding counts_calculateWaitingTimeDistribution b
    using assms(2) by (rule foldl_incrementCount_NaN)
qed

section \<open>Properties of the sampling functions\<close>

subsection \<open>Auxiliary facts\<close>

lemma validTape_Cons: "validTape (r # rest) \<longleftrightarrow> 0 \<le> r \<and> r < 1 \<and> validTape rest"
  by (simp add: validTape_def)

lemma drawNonZero_nonzero: "drawNonZero tape = Inr (u, rest) \<Longrightarrow> u \<noteq> 0"
  by (induction tape) (auto split: if_splits)

lemma drawNonZero_valid:
  "validTape tape \<Longrightarrow> drawNonZero tape = Inr (u, rest) \<Longrightarrow> 0 < u \<and> u < 1 \<and> validTape rest"
  by (induction tape) (auto simp: validTape_Cons split: if_splits)

lemma boxMuller_Num:
  assumes "0 < u" and "u < 1"
  shows "boxMuller mu sigma u v = Num (mu + sigma * (sqrt (- 2 * ln u) * cos (2 * pi * v)))"
proof -
  have "ln u < 0" using assms by simp
  then have "0 \<le> - 2 * ln u" by simp
  then show ?thesis using assms by (simp add: boxMuller_def)
qed

lemma truncatedNormal_result:
  "validTape tape \<Longrightarrow> truncatedNormal mu sigma tape = Inr (value, rest) \<Longrightarrow>
     (\<exists>x u v. value = Num x \<and> 0 \<le> x \<and> 0 < u \<and> u < 1 \<and> 0 < v \<and> v < 1 \<and>
        value = boxMuller mu sigma u v) \<and> validTape rest"
proof (induction mu sigma tape rule: truncatedNormal.induct)
  case (1 mu sigma tape)
  from "1.prems"(2) obtain u tape1 where u: "drawNonZero tape = Inr (u, tape1)"
    by (subst (asm) truncatedNormal.simps) (auto split: sum.splits)
  from "1.prems"(2) u obtain v tape2 where v: "drawNonZero tape1 = Inr (v, tape2)"
    by (subst (asm) truncatedNormal.simps) (auto split: sum.splits)
  from drawNonZero_valid [OF "1.prems"(1) u] have u01: "0 < u" "u < 1" and t1: "validTape tape1"
    by simp_all
  from drawNonZero_valid [OF t1 v] have v01: "0 < v" "v < 1" and t2: "validTape tape2"
    by simp_all
  obtain y where y: "boxMuller mu sigma u v = Num y"
    using boxMuller_Num [OF u01] by blast
  show ?case
  proof (cases "y < 0")
    case True
    then have "truncatedNormal mu sigma tape = truncatedNormal mu sigma tape2"
      by (subst truncatedNormal.simps) (simp add: u v y)
    with "1.prems"(2) have "truncatedNormal mu sigma tape2 = Inr (value, rest)" by simp
    moreover have "js_lt (boxMuller mu sigma u v) (Num 0)" using True y by simp
    ultimately show ?thesis using "1.IH" [OF u refl v refl refl _ t2] by simp
  next
    case False
    then have "truncatedNormal mu sigma tape = Inr (Num y, tape2)"
      by (subst truncatedNormal.simps) (simp add: u v y)
    with "1.prems"(2) have "value = Num y" "rest = tape2" by simp_all
    moreover have "\<exists>x u' v'. Num y = Num x \<and> 0 \<le> x \<and> 0 < u' \<and> u' < 1 \<and> 0 < v' \<and> v' < 1 \<and>
        Num y = boxMuller mu sigma u' v'"
      using False u01 v01 y by (intro exI [of _ y] exI [of _ u] exI [of _ v]) simp
    ultimately show ?thesis using t2 by simp
  qed
qed

section \<open>Properties of the arrival step\<close>

subsection \<open>Auxiliary facts\<close>

lemma foldl_keepMin:
  fixes first :: "nat \<times> nat"
  shows "\<exists>k<length (first # others).
      foldl (\<lambda>min curr. if fst curr < fst min then curr else min) first others = (first # others) ! k \<and>
      (\<forall>j<length (first # others). fst ((first # others) ! k) \<le> fst ((first # others) ! j)) \<and>
      (\<forall>j<k. fst ((first # others) ! k) < fst ((first # others) ! j))"
proof (induction others rule: rev_induct)
  case Nil
  show ?case by simp
next
  case (snoc x xs)
  let ?f = "\<lambda>min curr :: nat \<times> nat. if fst curr < fst min then curr else min"
  let ?ys = "first # xs"
  from snoc obtain k where k: "k < length ?ys" "foldl ?f first xs = ?ys ! k"
    "\<forall>j<length ?ys. fst (?ys ! k) \<le> fst (?ys ! j)" "\<forall>j<k. fst (?ys ! k) < fst (?ys ! j)"
    by blast
  have app: "first # xs @ [x] = ?ys @ [x]" by simp
  show ?case
  proof (cases "fst x < fst (?ys ! k)")
    case True
    have "foldl ?f first (xs @ [x]) = x" using True k(2) by simp
    moreover have "(?ys @ [x]) ! length ?ys = x" by (simp only: nth_append_length)
    moreover have "\<forall>j<length (?ys @ [x]). fst x \<le> fst ((?ys @ [x]) ! j)"
    proof (intro allI impI)
      fix j assume "j < length (?ys @ [x])"
      then consider "j < length ?ys" | "j = length ?ys" by fastforce
      then show "fst x \<le> fst ((?ys @ [x]) ! j)"
      proof cases
        case 1
        then have "(?ys @ [x]) ! j = ?ys ! j" by (simp only: nth_append if_True)
        with k(3) 1 True show ?thesis by fastforce
      next
        case 2
        then show ?thesis by (simp only: nth_append_length order_refl)
      qed
    qed
    moreover have "\<forall>j<length ?ys. fst x < fst ((?ys @ [x]) ! j)"
    proof (intro allI impI)
      fix j assume 1: "j < length ?ys"
      then have "(?ys @ [x]) ! j = ?ys ! j" by (simp only: nth_append if_True)
      with k(3) 1 True show "fst x < fst ((?ys @ [x]) ! j)" by fastforce
    qed
    ultimately show ?thesis
      unfolding app by (intro exI [of _ "length ?ys"]) simp
  next
    case False
    have "foldl ?f first (xs @ [x]) = ?ys ! k" using False k(2) by simp
    moreover have kk: "(?ys @ [x]) ! k = ?ys ! k" using k(1) by (simp only: nth_append if_True)
    moreover have "\<forall>j<length (?ys @ [x]). fst (?ys ! k) \<le> fst ((?ys @ [x]) ! j)"
    proof (intro allI impI)
      fix j assume "j < length (?ys @ [x])"
      then consider "j < length ?ys" | "j = length ?ys" by fastforce
      then show "fst (?ys ! k) \<le> fst ((?ys @ [x]) ! j)"
      proof cases
        case 1
        then have "(?ys @ [x]) ! j = ?ys ! j" by (simp only: nth_append if_True)
        with k(3) 1 show ?thesis by simp
      next
        case 2
        then have "(?ys @ [x]) ! j = x" by (simp only: nth_append_length)
        with False show ?thesis by simp
      qed
    qed
    moreover have "\<forall>j<k. fst (?ys ! k) < fst ((?ys @ [x]) ! j)"
    proof (intro allI impI)
      fix j assume "j < k"
      with k(1) have 1: "j < length ?ys" by simp
      then have "(?ys @ [x]) ! j = ?ys ! j" by (simp only: nth_append if_True)
      with k(4) \<open>j < k\<close> show "fst (?ys ! k) < fst ((?ys @ [x]) ! j)" by simp
    qed
    ultimately show ?thesis
      unfolding app using k(1) by (intro exI [of _ k]) simp
  qed
qed

lemma shortestQueueIndex_empty: "shortestQueueIndex [] = Inl TypeError"
  by (simp add: shortestQueueIndex_def)

lemma shortestQueueIndex_min:
  assumes "stations \<noteq> []"
  shows "\<exists>k<length stations. shortestQueueIndex stations = Inr k \<and>
           (\<forall>j<length stations. length (queue (stations ! k)) \<le> length (queue (stations ! j))) \<and>
           (\<forall>j<k. length (queue (stations ! k)) < length (queue (stations ! j)))"
proof -
  let ?pairs = "map (\<lambda>(s, i). (length (queue s), i)) (zip stations [0..<length stations])"
  have len: "length ?pairs = length stations" by simp
  have nth: "\<And>j. j < length stations \<Longrightarrow> ?pairs ! j = (length (queue (stations ! j)), j)"
    by simp
  from assms len obtain first others where fo: "?pairs = first # others"
    by (cases ?pairs) auto
  from foldl_keepMin [of first others] obtain k where k: "k < length (first # others)"
    "foldl (\<lambda>min curr. if fst curr < fst min then curr else min) first others = (first # others) ! k"
    "\<forall>j<length (first # others). fst ((first # others) ! k) \<le> fst ((first # others) ! j)"
    "\<forall>j<k. fst ((first # others) ! k) < fst ((first # others) ! j)"
    by blast
  from k(1) fo len have kl: "k < length stations" by simp
  have r: "shortestQueueIndex stations = Inr (snd (?pairs ! k))"
    unfolding shortestQueueIndex_def fo using k(2) by simp
  have "snd (?pairs ! k) = k" using nth [OF kl] by simp
  with r have 1: "shortestQueueIndex stations = Inr k" by simp
  have 2: "\<forall>j<length stations. length (queue (stations ! k)) \<le> length (queue (stations ! j))"
  proof (intro allI impI)
    fix j assume j: "j < length stations"
    with k(3) fo len have "fst (?pairs ! k) \<le> fst (?pairs ! j)" by simp
    then show "length (queue (stations ! k)) \<le> length (queue (stations ! j))"
      using nth [OF kl] nth [OF j] by simp
  qed
  have 3: "\<forall>j<k. length (queue (stations ! k)) < length (queue (stations ! j))"
  proof (intro allI impI)
    fix j assume jk: "j < k"
    with kl have j: "j < length stations" by simp
    from k(4) jk fo have "fst (?pairs ! k) < fst (?pairs ! j)" by simp
    then show "length (queue (stations ! k)) < length (queue (stations ! j))"
      using nth [OF kl] nth [OF j] by simp
  qed
  from kl 1 2 3 show ?thesis by blast
qed


subsection \<open>Shortest-queue routing (C5)\<close>

text \<open>
  Claim C5: an arriving traveler is pushed onto the primary queue of minimum length,
  and of several queues of minimum length onto the one with the lowest index; for
  queue lengths \<open>[2, 0, 3]\<close> that is station 1. When an arrival is due in a step
  (the countdown, less the step size, is \<open>\<le> 0\<close>) and \<open>handleArrivals\<close> returns, the index
  \<open>k\<close> that \<open>shortestQueueIndex\<close> computes has a queue no longer than any other and
  strictly shorter than every queue before it, and the only change to the stations is
  the new traveler, with \<open>arrivalTime = currentTime\<close>, at the end of queue \<open>k\<close>.
\<close>

theorem arrival_joins_shortest_queue:
  assumes "js_le (js_sub (timeToNextArrival s) (Num stepSize)) (Num 0)"
    and "handleArrivals params currentTime s = Inr s'"
  shows "\<exists>k<length (primaryStations s).
           shortestQueueIndex (primaryStations s) = Inr k \<and>
           (\<forall>j<length (primaryStations s).
              length (queue (primaryStations s ! k)) \<le> length (queue (primaryStations s ! j))) \<and>
           (\<forall>j<k. length (queue (primaryStations s ! k)) < length (queue (primaryStations s ! j))) \<and>
           (\<exists>r. primaryStations s' = (primaryStations s)
                [k := (primaryStations s ! k)\<lparr>queue := queue (primaryStations s ! k) @
                   [\<lparr>arrivalTime = currentTime, needsScreening = (r < screenProb params),
                     startServiceTime = None, endServiceTime = None\<rparr>]\<rparr>])"
proof -
  have ne: "primaryStations s \<noteq> []"
  proof
    assume "primaryStations s = []"
    then have "handleArrivals params currentTime s = Inl TypeError"
      using assms(1) by (simp add: handleArrivals_def shortestQueueIndex_def)
    with assms(2) show False by simp
  qed
  from shortestQueueIndex_min [OF ne] obtain k where k: "k < length (primaryStations s)"
    "shortestQueueIndex (primaryStations s) = Inr k"
    "\<forall>j<length (primaryStations s).
        length (queue (primaryStations s ! k)) \<le> length (queue (primaryStations s ! j))"
    "\<forall>j<k. length (queue (primaryStations s ! k)) < length (queue (primaryStations s ! j))"
    by blast
  from assms k(2) obtain r rest where r: "Math_random (rng s) = Inr (r, rest)"
    by (auto simp: handleArrivals_def Let_def split: sum.splits)
  from assms k(2) r have "primaryStations s' = (primaryStations s)
        [k := (primaryStations s ! k)\<lparr>queue := queue (primaryStations s ! k) @
           [\<lparr>arrivalTime = currentTime, needsScreening = (r < screenProb params),
             startServiceTime = None, endServiceTime = None\<rparr>]\<rparr>]"
    by (auto simp: handleArrivals_def Let_def split: sum.splits)
  with k show ?thesis by blast
qed

text \<open>
  The snapshot \<open>[2, 0, 3]\<close>: the arrival goes to station 1, and the queue lengths
  become \<open>[2, 1, 3]\<close>.
\<close>

theorem arrival_joins_shortest_queue_witness:
  "(let tr = \<lparr>arrivalTime = 0, needsScreening = False, startServiceTime = None,
              endServiceTime = None\<rparr>;
        stations = [idleStation\<lparr>queue := [tr, tr]\<rparr>, idleStation,
                    idleStation\<lparr>queue := [tr, tr, tr]\<rparr>];
        s = \<lparr>primaryStations = stations, seniorStation = idleStation, timeSeries = [],
             waitingTimes = [], primaryServiceTimes = [], seniorServiceTimes = [],
             stationBusyTime = [0, 0, 0], seniorBusyTime = 0, timeToNextArrival = Num (1 / 20),
             rng = [1 / 2, 1 / 2], completedPrimary = 0\<rparr>;
        params = \<lparr>numStations = 3, arrivalRate = 10, mu1 = 30, sigma1 = 10, mu2 = 120,
                  sigma2 = 120, screenProb = 3 / 100, simulationTime = 3600\<rparr>
    in map (\<lambda>st. length (queue st)) stations = [2, 0, 3] \<and>
       js_le (js_sub (timeToNextArrival s) (Num stepSize)) (Num 0) \<and>
       shortestQueueIndex stations = Inr 1 \<and>
       (case handleArrivals params 5 s of
          Inl e \<Rightarrow> False
        | Inr s' \<Rightarrow> map (\<lambda>st. length (queue st)) (primaryStations s') = [2, 1, 3]))"
proof -
  define tr where "tr = \<lparr>arrivalTime = 0, needsScreening = False, startServiceTime = None,
              endServiceTime = None\<rparr>"
  define stations where "stations = [idleStation\<lparr>queue := [tr, tr]\<rparr>, idleStation,
                    idleStation\<lparr>queue := [tr, tr, tr]\<rparr>]"
  define s where "s = \<lparr>primaryStations = stations, seniorStation = idleStation, timeSeries = [],
             waitingTimes = [], primaryServiceTimes = [], seniorServiceTimes = [],
             stationBusyTime = [0, 0, 0], seniorBusyTime = 0, timeToNextArrival = Num (1 / 20),
             rng = [1 / 2, 1 / 2], completedPrimary = 0\<rparr>"
  define params where "params = \<lparr>numStations = 3, arrivalRate = 10, mu1 = 30, sigma1 = 10, mu2 = 120,
                  sigma2 = 120, screenProb = 3 / 100, simulationTime = 3600\<rparr>"
  have lens: "map (\<lambda>st. length (queue st)) stations = [2, 0, 3]"
    by (simp add: stations_def idleStation_def)
  have due: "js_le (js_sub (timeToNextArrival s) (Num stepSize)) (Num 0)"
    by (simp add: s_def js_sub_def stepSize_def)
  have sq: "shortestQueueIndex stations = Inr 1"
    by (simp add: shortestQueueIndex_def stations_def idleStation_def upt_rec [of 0]
        upt_rec [of 1] upt_rec [of 2] upt_rec [of 3] eval_nat_numeral)
  obtain s' where run: "handleArrivals params 5 s = Inr s'"
    using due sq
    by (simp add: handleArrivals_def Let_def s_def Math_random_def sampleInterArrival_def)
  from arrival_joins_shortest_queue [OF due run] sq obtain tr' where
    "primaryStations s' = (primaryStations s)
        [1 := (primaryStations s ! 1)\<lparr>queue := queue (primaryStations s ! 1) @ [tr']\<rparr>]"
    unfolding s_def by auto
  then have "map (\<lambda>st. length (queue st)) (primaryStations s') = [2, 1, 3]"
    by (simp add: s_def stations_def idleStation_def)
  with lens due sq run show ?thesis
    unfolding Let_def tr_def [symmetric] stations_def [symmetric] s_def [symmetric]
      params_def [symmetric]
    by simp
qed

section \<open>Properties of the simulation loop\<close>

subsection \<open>Invariants of the loops, and what the arrival step leaves unchanged\<close>

lemma forEachPrimary_invariant:
  assumes step: "\<And>i s s'. I s \<Longrightarrow> i \<in> set indices \<Longrightarrow>
      processPrimaryStation params currentTime i s = Inr s' \<Longrightarrow> I s'"
    and "I s" and "forEachPrimary params currentTime indices s = Inr s'"
  shows "I s'"
  using assms
proof (induction indices arbitrary: s)
  case Nil
  then show ?case by simp
next
  case (Cons i indices)
  from Cons.prems(3) obtain s1 where s1: "processPrimaryStation params currentTime i s = Inr s1"
    and rest: "forEachPrimary params currentTime indices s1 = Inr s'"
    by (auto split: sum.splits)
  have 1: "I s1" using Cons.prems(1) [OF Cons.prems(2) _ s1] by simp
  have 2: "\<And>j x x'. I x \<Longrightarrow> j \<in> set indices \<Longrightarrow>
      processPrimaryStation params currentTime j x = Inr x' \<Longrightarrow> I x'"
  proof -
    fix j x x'
    assume "I x" and "j \<in> set indices" and "processPrimaryStation params currentTime j x = Inr x'"
    then show "I x'" using Cons.prems(1) [of x j x'] by simp
  qed
  show ?case by (rule Cons.IH [OF 2 1 rest])
qed

lemma runSteps_invariant:
  assumes step: "\<And>k s s'. I s \<Longrightarrow> simulationStep params k s = Inr s' \<Longrightarrow> I s'"
    and "I s" and "runSteps params step n s = Inr s'"
  shows "I s'"
  using assms(2,3)
proof (induction n arbitrary: step s)
  case 0
  then show ?case by simp
next
  case (Suc n)
  from Suc.prems(2) obtain s1 where s1: "simulationStep params step s = Inr s1"
    and rest: "runSteps params (Suc step) n s1 = Inr s'"
    by (auto split: sum.splits)
  from step [OF Suc.prems(1) s1] have "I s1" .
  from Suc.IH [OF this rest] show ?case .
qed

lemma simulationStep_cases:
  assumes "simulationStep params step s = Inr s'"
  obtains s1 s2 s3 where "handleArrivals params (real step * stepSize) s = Inr s1"
    and "forEachPrimary params (real step * stepSize) [0..<length (primaryStations s1)] s1 = Inr s2"
    and "startSenior params (completeSenior s2) = Inr s3"
    and "s' = recordTimeSeries (real step * stepSize) s3"
  using assms by (auto simp: simulationStep_def Let_def split: sum.splits)

lemma map_update_same: "(map f xs)[k := f (xs ! k)] = map f xs"
  by (simp add: map_update [symmetric])

lemma handleArrivals_frame:
  "handleArrivals params t s = Inr s' \<Longrightarrow>
     length (primaryStations s') = length (primaryStations s) \<and>
     stationBusyTime s' = stationBusyTime s \<and> seniorBusyTime s' = seniorBusyTime s \<and>
     seniorStation s' = seniorStation s \<and> waitingTimes s' = waitingTimes s \<and>
     completedPrimary s' = completedPrimary s \<and>
     map busy (primaryStations s') = map busy (primaryStations s) \<and>
     map traveler (primaryStations s') = map traveler (primaryStations s)"
  by (auto simp: handleArrivals_def Let_def map_update map_update_same
      split: sum.splits if_splits)

subsection \<open>The example run\<close>

lemma ln_99_100: "- (1 / 60) \<le> ln (99 / 100 :: real)"
proof -
  have "1 + 1 / 60 \<le> exp (1 / 60 :: real)" by (rule exp_ge_add_one_self)
  then have "exp (- (1 / 60) :: real) \<le> 1 / (1 + 1 / 60)"
    by (simp add: exp_minus field_simps)
  also have "\<dots> \<le> (99 / 100 :: real)" by simp
  finally show ?thesis by (simp add: ln_ge_iff)
qed

lemma ln_half: "ln (1 / 2 :: real) \<le> - (1 / 2)"
  using ln_le_minus_one [of "1 / 2 :: real"] by simp

lemma example_initialState: "initialState exampleParams (exampleTape u) = Inr (exampleInitial u)"
  by (simp add: initialState_def exampleParams_def exampleTape_def sampleInterArrival_def
      Math_random_def arrivalRatePerSecond_def exampleInitial_def eval_nat_numeral)

lemma example_truncatedNormal: "truncatedNormal 30 10 [1 / 2, 1 / 4] = Inr (Num 30, [])"
  by (subst truncatedNormal.simps) (simp add: boxMuller_def ln_div)

lemma example_shortest: "shortestQueueIndex [idleStation, idleStation] = Inr 0"
  by (simp add: shortestQueueIndex_def idleStation_def upt_rec [of 0] upt_rec [of 1] upt_rec [of 2]
      eval_nat_numeral)

lemma example_handleArrivals: "handleArrivals exampleParams 0 (exampleInitial u) = Inr (exampleArrived u)"
proof -
  have due: "js_le (js_sub (timeToNextArrival (exampleInitial u)) (Num stepSize)) (Num 0)"
    using ln_99_100 by (simp add: exampleInitial_def js_sub_def stepSize_def)
  have sq: "shortestQueueIndex (primaryStations (exampleInitial u)) = Inr 0"
    by (simp add: exampleInitial_def example_shortest)
  have r1: "Math_random (rng (exampleInitial u)) = Inr (1 / 2, [u, 1 / 2, 1 / 4])"
    by (simp add: exampleInitial_def Math_random_def)
  have r2: "sampleInterArrival (arrivalRatePerSecond exampleParams) [u, 1 / 2, 1 / 4]
      = Inr (js_div (js_neg (js_log (Num u))) (Num (10 / 60)), [1 / 2, 1 / 4])"
    by (simp add: sampleInterArrival_def Math_random_def arrivalRatePerSecond_def exampleParams_def)
  show ?thesis
    unfolding handleArrivals_def Let_def
    by (simp only: due sq r1 r2 if_True sum.case prod.case)
       (simp add: exampleArrived_def exampleInitial_def exampleParams_def idleStation_def)
qed

lemma example_process0:
  "processPrimaryStation exampleParams 0 0 (exampleArrived u) = Inr (exampleServing u)"
  by (simp add: processPrimaryStation_def completePrimary_def startPrimary_def Let_def
      exampleArrived_def exampleInitial_def exampleServing_def idleStation_def
      exampleParams_def example_truncatedNormal)

lemma example_process1:
  "processPrimaryStation exampleParams 0 1 (exampleServing u) = Inr (exampleServing u)"
  by (simp add: processPrimaryStation_def completePrimary_def startPrimary_def Let_def
      exampleArrived_def exampleInitial_def exampleServing_def idleStation_def)

lemma example_forEachPrimary:
  "forEachPrimary exampleParams 0 [0..<length (primaryStations (exampleArrived u))] (exampleArrived u)
     = Inr (exampleServing u)"
proof -
  have "[0..<length (primaryStations (exampleArrived u))] = [0, 1]"
    by (simp add: exampleArrived_def upt_rec [of 0] upt_rec [of 1] upt_rec [of 2] eval_nat_numeral)
  then show ?thesis
    by (simp only: forEachPrimary.simps example_process0 example_process1 sum.case)
qed

lemma example_senior: "startSenior exampleParams (completeSenior (exampleServing u)) = Inr (exampleServing u)"
  by (simp add: completeSenior_def startSenior_def Let_def exampleServing_def exampleArrived_def
      exampleInitial_def idleStation_def)

lemma example_record: "recordTimeSeries 0 (exampleServing u) = (exampleFinal u)"
  by (simp add: recordTimeSeries_def Let_def exampleFinal_def exampleServing_def
      exampleArrived_def exampleInitial_def idleStation_def)

lemma example_step: "simulationStep exampleParams 0 (exampleInitial u) = Inr (exampleFinal u)"
  by (simp add: simulationStep_def example_handleArrivals example_forEachPrimary
      example_senior example_record)

lemma example_stateAfter: "stateAfter exampleParams (exampleTape u) 1 = Inr (exampleFinal u)"
  by (simp add: stateAfter_def example_initialState example_step)

lemma example_finalState: "finalState exampleParams (exampleTape u) = Inr (exampleFinal u)"
proof -
  have "toDouble (1 / 10 / (3602879701896397 / 36028797018963968)) = 1"
    by (rule trans [OF toDouble_eval [where p = 53 and n = 9007199254740992]])
       (simp_all add: roundHalfEven_def)
  then have "totalSteps exampleParams = 1"
    by (simp add: totalSteps_def exampleParams_def stepSize_def toDouble_stepSize)
  then show ?thesis by (simp only: finalState_def example_stateAfter)
qed

lemma example_validTape: "0 \<le> u \<Longrightarrow> u < 1 \<Longrightarrow> validTape (exampleTape u)"
  by (simp add: validTape_def exampleTape_def)

subsection \<open>The example run with a longer horizon\<close>

text \<open>No step reads \<open>simulationTime\<close>.\<close>

lemma forEachPrimary_simulationTime:
  "forEachPrimary (params\<lparr>simulationTime := T\<rparr>) t indices s = forEachPrimary params t indices s"
  by (induction indices arbitrary: s)
     (simp_all add: processPrimaryStation_def startPrimary_def Let_def
        cong: sum.case_cong list.case_cong prod.case_cong if_cong)

lemma simulationStep_simulationTime:
  "simulationStep (params\<lparr>simulationTime := T\<rparr>) k s = simulationStep params k s"
  by (simp add: simulationStep_def handleArrivals_def arrivalRatePerSecond_def
      forEachPrimary_simulationTime startSenior_def Let_def
      cong: sum.case_cong list.case_cong prod.case_cong if_cong)

lemma runSteps_simulationTime:
  "runSteps (params\<lparr>simulationTime := T\<rparr>) k n s = runSteps params k n s"
  by (induction n arbitrary: k s)
     (simp_all add: simulationStep_simulationTime cong: sum.case_cong)

lemma stateAfter_simulationTime:
  "stateAfter (params\<lparr>simulationTime := T\<rparr>) tape k = stateAfter params tape k"
  by (simp add: stateAfter_def initialState_def arrivalRatePerSecond_def
      runSteps_simulationTime cong: sum.case_cong prod.case_cong)

lemma exampleFinal_quiet:
  "exampleFinal (1 / 2) = exampleQuiet 0 (timeSeries (exampleFinal (1 / 2)))"
  by (simp add: exampleQuiet_def exampleFinal_def exampleServing_def exampleArrived_def
      exampleInitial_def)

lemma quiet_step:
  assumes "real (Suc n) * stepSize < 3"
  shows "simulationStep exampleParams k (exampleQuiet n ts) =
     Inr (exampleQuiet (Suc n)
            (ts @ [\<lparr>time = real k * stepSize, queueLengths = [0, 0], seniorQueueLength = 0,
                    totalQueueLength = 0\<rparr>]))"
proof -
  let ?a = "(exampleQuiet n ts)
      \<lparr>timeToNextArrival := Num (- ln (1 / 2) / (10 / 60) - real (Suc n) * stepSize)\<rparr>"
  let ?b = "exampleQuiet (Suc n) ts"
  have c0: "3 \<le> - ln (1 / 2 :: real) / (10 / 60)" using ln_half by simp
  have due: "\<not> js_le (js_sub (timeToNextArrival (exampleQuiet n ts)) (Num stepSize)) (Num 0)"
    using c0 assms by (simp add: exampleQuiet_def js_sub_def algebra_simps)
  have h: "handleArrivals exampleParams (real k * stepSize) (exampleQuiet n ts) = Inr ?a"
    unfolding handleArrivals_def Let_def
    by (simp only: due if_False) (simp add: exampleQuiet_def js_sub_def algebra_simps)
  have rem: "\<not> 30 - real n * stepSize - stepSize \<le> 0" using assms by (simp add: algebra_simps)
  have p0: "processPrimaryStation exampleParams (real k * stepSize) 0 ?a = Inr ?b"
    using rem
    by (simp add: processPrimaryStation_def completePrimary_def startPrimary_def Let_def
        exampleQuiet_def js_sub_def algebra_simps)
  have p1: "processPrimaryStation exampleParams (real k * stepSize) 1 ?b = Inr ?b"
    by (simp add: processPrimaryStation_def completePrimary_def startPrimary_def Let_def
        exampleQuiet_def idleStation_def)
  have l: "[0..<length (primaryStations ?a)] = [0, 1]"
    by (simp add: exampleQuiet_def upt_rec [of 0] upt_rec [of 1] upt_rec [of 2] eval_nat_numeral)
  have f: "forEachPrimary exampleParams (real k * stepSize) [0..<length (primaryStations ?a)] ?a
      = Inr ?b"
    unfolding l by (simp only: forEachPrimary.simps p0 p1 sum.case)
  have sn: "startSenior exampleParams (completeSenior ?b) = Inr ?b"
    by (simp add: completeSenior_def startSenior_def Let_def exampleQuiet_def exampleFinal_def
        exampleServing_def exampleArrived_def exampleInitial_def idleStation_def)
  have rc: "recordTimeSeries (real k * stepSize) ?b =
      exampleQuiet (Suc n)
        (ts @ [\<lparr>time = real k * stepSize, queueLengths = [0, 0], seniorQueueLength = 0,
                totalQueueLength = 0\<rparr>])"
    by (simp add: recordTimeSeries_def Let_def exampleQuiet_def exampleFinal_def
        exampleServing_def exampleArrived_def exampleInitial_def idleStation_def)
  show ?thesis
    unfolding simulationStep_def Let_def
    by (simp only: h f sn rc sum.case)
qed

lemma quiet_runSteps:
  "real (n + m) * stepSize < 3 \<Longrightarrow>
     \<exists>ts'. runSteps exampleParams k m (exampleQuiet n ts) = Inr (exampleQuiet (n + m) ts')"
proof (induction m arbitrary: k n ts)
  case 0
  show ?case by (intro exI [of _ ts]) simp
next
  case (Suc m)
  have "real (Suc n) * stepSize \<le> real (n + Suc m) * stepSize"
    by (simp add: stepSize_def)
  with Suc.prems have 1: "real (Suc n) * stepSize < 3" by linarith
  from Suc.prems have "real (Suc n + m) * stepSize < 3" by simp
  from Suc.IH [OF this] obtain ts' where
    "runSteps exampleParams (Suc k) m
       (exampleQuiet (Suc n)
          (ts @ [\<lparr>time = real k * stepSize, queueLengths = [0, 0], seniorQueueLength = 0,
                  totalQueueLength = 0\<rparr>]))
     = Inr (exampleQuiet (Suc n + m) ts')"
    by blast
  then show ?case by (intro exI [of _ ts']) (simp add: quiet_step [OF 1])
qed

lemma accumulateBusy_2: "accumulateBusy 2 = addStepSize (addStepSize 0)"
  by (simp add: numeral_2_eq_2)

lemma accumulate_step:
  assumes "accumulateBusy k = v"
    and "0 < v + 3602879701896397 / 36028797018963968"
    and "2 ^ 52 \<le> (v + 3602879701896397 / 36028797018963968) * 2 ^ p"
    and "(v + 3602879701896397 / 36028797018963968) * 2 ^ p < 2 ^ 53"
    and "p \<le> 1074"
    and "roundHalfEven ((v + 3602879701896397 / 36028797018963968) * 2 ^ p) = n"
  shows "accumulateBusy (Suc k) = of_int n / 2 ^ p"
  using toDouble_eval [OF assms(2-6)]
  by (simp add: addStepSize_def stepSize_def toDouble_stepSize assms(1))

lemma accumulateBusy_19: "accumulateBusy 19 = 8556839292003945 / 4503599627370496"
proof -
  have b0: "accumulateBusy 0 = 0" by simp
  have b1: "accumulateBusy 1 = 3602879701896397 / 36028797018963968"
    using accumulate_step [OF b0, of 56 7205759403792794]
    by (simp add: roundHalfEven_def del: accumulateBusy.simps)
  have b2: "accumulateBusy 2 = 3602879701896397 / 18014398509481984"
    using accumulate_step [OF b1, of 55 7205759403792794]
    by (simp add: roundHalfEven_def numeral_2_eq_2 del: accumulateBusy.simps)
  have b3: "accumulateBusy 3 = 1351079888211149 / 4503599627370496"
    using accumulate_step [OF b2, of 54 5404319552844596]
    by (simp add: roundHalfEven_def del: accumulateBusy.simps)
  have b4: "accumulateBusy 4 = 3602879701896397 / 9007199254740992"
    using accumulate_step [OF b3, of 54 7205759403792794]
    by (simp add: roundHalfEven_def del: accumulateBusy.simps)
  have b5: "accumulateBusy 5 = 1 / 2"
    using accumulate_step [OF b4, of 53 4503599627370496]
    by (simp add: roundHalfEven_def del: accumulateBusy.simps)
  have b6: "accumulateBusy 6 = 5404319552844595 / 9007199254740992"
    using accumulate_step [OF b5, of 53 5404319552844595]
    by (simp add: roundHalfEven_def del: accumulateBusy.simps)
  have b7: "accumulateBusy 7 = 3152519739159347 / 4503599627370496"
    using accumulate_step [OF b6, of 53 6305039478318694]
    by (simp add: roundHalfEven_def del: accumulateBusy.simps)
  have b8: "accumulateBusy 8 = 7205759403792793 / 9007199254740992"
    using accumulate_step [OF b7, of 53 7205759403792793]
    by (simp add: roundHalfEven_def del: accumulateBusy.simps)
  have b9: "accumulateBusy 9 = 2026619832316723 / 2251799813685248"
    using accumulate_step [OF b8, of 53 8106479329266892]
    by (simp add: roundHalfEven_def del: accumulateBusy.simps)
  have b10: "accumulateBusy 10 = 9007199254740991 / 9007199254740992"
    using accumulate_step [OF b9, of 53 9007199254740991]
    by (simp add: roundHalfEven_def del: accumulateBusy.simps)
  have b11: "accumulateBusy 11 = 4953959590107545 / 4503599627370496"
    using accumulate_step [OF b10, of 52 4953959590107545]
    by (simp add: roundHalfEven_def del: accumulateBusy.simps)
  have b12: "accumulateBusy 12 = 5404319552844595 / 4503599627370496"
    using accumulate_step [OF b11, of 52 5404319552844595]
    by (simp add: roundHalfEven_def del: accumulateBusy.simps)
  have b13: "accumulateBusy 13 = 5854679515581645 / 4503599627370496"
    using accumulate_step [OF b12, of 52 5854679515581645]
    by (simp add: roundHalfEven_def del: accumulateBusy.simps)
  have b14: "accumulateBusy 14 = 6305039478318695 / 4503599627370496"
    using accumulate_step [OF b13, of 52 6305039478318695]
    by (simp add: roundHalfEven_def del: accumulateBusy.simps)
  have b15: "accumulateBusy 15 = 6755399441055745 / 4503599627370496"
    using accumulate_step [OF b14, of 52 6755399441055745]
    by (simp add: roundHalfEven_def del: accumulateBusy.simps)
  have b16: "accumulateBusy 16 = 7205759403792795 / 4503599627370496"
    using accumulate_step [OF b15, of 52 7205759403792795]
    by (simp add: roundHalfEven_def del: accumulateBusy.simps)
  have b17: "accumulateBusy 17 = 7656119366529845 / 4503599627370496"
    using accumulate_step [OF b16, of 52 7656119366529845]
    by (simp add: roundHalfEven_def del: accumulateBusy.simps)
  have b18: "accumulateBusy 18 = 8106479329266895 / 4503599627370496"
    using accumulate_step [OF b17, of 52 8106479329266895]
    by (simp add: roundHalfEven_def del: accumulateBusy.simps)
  have b19: "accumulateBusy 19 = 8556839292003945 / 4503599627370496"
    using accumulate_step [OF b18, of 52 8556839292003945]
    by (simp add: roundHalfEven_def del: accumulateBusy.simps)
  show ?thesis by (rule b19)
qed

lemma overshoot_totalSteps: "totalSteps overshootParams = 20"
proof -
  have q: "simulationTime overshootParams / toDouble stepSize
      = 68454714336031552 / 3602879701896397"
    by (simp add: overshootParams_def stepSize_def toDouble_stepSize)
  have v: "toDouble (68454714336031552 / 3602879701896397)
      = 5348024557502465 / 281474976710656"
    by (rule trans [OF toDouble_eval [where p = 48 and n = 5348024557502465]])
       (simp_all add: roundHalfEven_def)
  have "\<lceil>5348024557502465 / 281474976710656 :: real\<rceil> = 20" by (simp add: ceiling_eq_iff)
  then show ?thesis by (simp only: totalSteps_def q v nat_numeral)
qed

lemma overshoot_finalState:
  "\<exists>ts. finalState overshootParams (exampleTape (1 / 2)) = Inr (exampleQuiet 19 ts)"
proof -
  have "real (0 + 19) * stepSize < 3" by (simp add: stepSize_def)
  from quiet_runSteps [OF this, of "Suc 0" "timeSeries (exampleFinal (1 / 2))"]
  obtain ts where
    q: "runSteps exampleParams (Suc 0) 19 (exampleFinal (1 / 2)) = Inr (exampleQuiet 19 ts)"
    using exampleFinal_quiet by auto
  have "runSteps exampleParams 0 (Suc 19) (exampleInitial (1 / 2)) = Inr (exampleQuiet 19 ts)"
    by (simp only: runSteps.simps example_step sum.case q)
  then have "stateAfter exampleParams (exampleTape (1 / 2)) 20 = Inr (exampleQuiet 19 ts)"
    by (simp add: stateAfter_def example_initialState)
  then have "finalState overshootParams (exampleTape (1 / 2)) = Inr (exampleQuiet 19 ts)"
    by (simp add: finalState_def overshoot_totalSteps)
       (simp add: overshootParams_def stateAfter_simulationTime)
  then show ?thesis by blast
qed

lemma overshoot_utilization:
  "js_div_d (Num (accumulateBusy 19)) (Num (simulationTime overshootParams))
     = Num (4503599627370497 / 4503599627370496)"
proof -
  have "toDouble (8556839292003945 / 4503599627370496 / (8556839292003944 / 2 ^ 52))
      = 4503599627370497 / 4503599627370496"
    by (rule trans [OF toDouble_eval [where p = 52 and n = 4503599627370497]])
       (simp_all add: roundHalfEven_def)
  moreover have "(4503599627370497 / 4503599627370496 :: real) < 2 ^ 1024"
  proof -
    have "(4503599627370497 / 4503599627370496 :: real) < 2 ^ 1" by simp
    also have "(2::real) ^ 1 \<le> 2 ^ 1024" by (rule power_increasing) simp_all
    finally show ?thesis .
  qed
  ultimately show ?thesis
    by (simp add: js_div_d_def js_round_def Let_def accumulateBusy_19 overshootParams_def
        exampleParams_def)
qed

subsection \<open>The second example run\<close>

lemma due_99: "js_le (js_sub (Num (- ln (99 / 100) / (10 / 60))) (Num stepSize)) (Num 0)"
  using ln_99_100 by (simp add: js_sub_def stepSize_def)

lemma not_due_half: "\<not> js_le (js_sub (Num (- ln (1 / 2) / (10 / 60))) (Num stepSize)) (Num 0)"
  using ln_half by (simp add: js_sub_def stepSize_def)

lemma sample_99:
  "sampleInterArrival (arrivalRatePerSecond queueParams) (99 / 100 # tape)
     = Inr (Num (- ln (99 / 100) / (10 / 60)), tape)"
  by (simp add: sampleInterArrival_def Math_random_def arrivalRatePerSecond_def queueParams_def)

lemma sample_half:
  "sampleInterArrival (arrivalRatePerSecond queueParams) (1 / 2 # tape)
     = Inr (Num (- ln (1 / 2) / (10 / 60)), tape)"
  by (simp add: sampleInterArrival_def Math_random_def arrivalRatePerSecond_def queueParams_def)

lemma service_mean:
  "truncatedNormal (3 / 20) (1 / 20) (1 / 2 # 1 / 4 # tape) = Inr (Num (3 / 20), tape)"
  by (subst truncatedNormal.simps) (simp add: boxMuller_def ln_div)

lemma shortest_single: "shortestQueueIndex [st] = Inr 0"
  by (simp add: shortestQueueIndex_def)

lemma queue_initialState: "initialState queueParams queueTape = Inr queueState0"
  by (simp add: initialState_def queueTape_def sample_99 queueState0_def)
     (simp add: queueParams_def)

lemma queue_step0: "simulationStep queueParams 0 queueState0 = Inr queueState1"
proof -
  let ?a = "queueState0\<lparr>primaryStations := [idleStation\<lparr>queue := [travelerA]\<rparr>],
      timeToNextArrival := Num (- ln (99 / 100) / (10 / 60)),
      rng := [1 / 2, 1 / 4, 1 / 2, 1 / 2, 1 / 2, 1 / 4]\<rparr>"
  let ?b = "queueState1\<lparr>timeSeries := []\<rparr>"
  have due: "js_le (js_sub (timeToNextArrival queueState0) (Num stepSize)) (Num 0)"
    using due_99 by (simp add: queueState0_def)
  have sq: "shortestQueueIndex (primaryStations queueState0) = Inr 0"
    by (simp add: queueState0_def shortest_single)
  have r1: "Math_random (rng queueState0)
      = Inr (1 / 2, [99 / 100, 1 / 2, 1 / 4, 1 / 2, 1 / 2, 1 / 2, 1 / 4])"
    by (simp add: queueState0_def Math_random_def)
  have h: "handleArrivals queueParams (real 0 * stepSize) queueState0 = Inr ?a"
    unfolding handleArrivals_def Let_def
    by (simp only: due sq r1 sample_99 if_True sum.case prod.case)
       (simp add: queueState0_def queueParams_def idleStation_def travelerA_def)
  have p: "processPrimaryStation queueParams (real 0 * stepSize) 0 ?a = Inr ?b"
    by (simp add: processPrimaryStation_def completePrimary_def startPrimary_def Let_def
        queueState0_def queueState1_def idleStation_def queueParams_def service_mean
        travelerA_def)
  have l: "[0..<length (primaryStations ?a)] = [0]"
    by (simp add: queueState0_def)
  have f: "forEachPrimary queueParams (real 0 * stepSize) [0..<length (primaryStations ?a)] ?a
      = Inr ?b"
    unfolding l by (simp only: forEachPrimary.simps p sum.case)
  have sn: "startSenior queueParams (completeSenior ?b) = Inr ?b"
    by (simp add: completeSenior_def startSenior_def Let_def queueState1_def queueState0_def
        idleStation_def)
  have rc: "recordTimeSeries (real 0 * stepSize) ?b = queueState1"
    by (simp add: recordTimeSeries_def Let_def queueState1_def queueState0_def idleStation_def)
  show ?thesis
    unfolding simulationStep_def Let_def
    by (simp only: h f sn rc sum.case)
qed


lemma queue_step1: "simulationStep queueParams 1 queueState1 = Inr queueState2"
proof -
  let ?a = "queueState1\<lparr>primaryStations :=
        [\<lparr>busy = True, remainingTime = Num (3 / 20),
          traveler = Some (travelerA\<lparr>startServiceTime := Some 0\<rparr>), queue = [travelerB]\<rparr>],
      timeToNextArrival := Num (- ln (1 / 2) / (10 / 60)),
      rng := [1 / 2, 1 / 4]\<rparr>"
  let ?b = "queueState2\<lparr>timeSeries := timeSeries queueState1\<rparr>"
  have due: "js_le (js_sub (timeToNextArrival queueState1) (Num stepSize)) (Num 0)"
    using due_99 by (simp add: queueState1_def queueState0_def)
  have sq: "shortestQueueIndex (primaryStations queueState1) = Inr 0"
    by (simp add: queueState1_def shortest_single)
  have r1: "Math_random (rng queueState1) = Inr (1 / 2, [1 / 2, 1 / 2, 1 / 4])"
    by (simp add: queueState1_def Math_random_def)
  have h: "handleArrivals queueParams (real 1 * stepSize) queueState1 = Inr ?a"
    unfolding handleArrivals_def Let_def
    by (simp only: due sq r1 sample_half if_True sum.case prod.case)
       (simp add: queueState1_def queueState0_def queueParams_def travelerB_def stepSize_def)
  have p: "processPrimaryStation queueParams (real 1 * stepSize) 0 ?a = Inr ?b"
    by (simp add: processPrimaryStation_def completePrimary_def startPrimary_def Let_def
        queueState0_def queueState1_def queueState2_def js_sub_def stepSize_def)
  have l: "[0..<length (primaryStations ?a)] = [0]"
    by (simp add: queueState1_def)
  have f: "forEachPrimary queueParams (real 1 * stepSize) [0..<length (primaryStations ?a)] ?a
      = Inr ?b"
    unfolding l by (simp only: forEachPrimary.simps p sum.case)
  have sn: "startSenior queueParams (completeSenior ?b) = Inr ?b"
    by (simp add: completeSenior_def startSenior_def Let_def queueState2_def queueState1_def
        queueState0_def idleStation_def)
  have rc: "recordTimeSeries (real 1 * stepSize) ?b = queueState2"
    by (simp add: recordTimeSeries_def Let_def queueState2_def queueState1_def queueState0_def
        idleStation_def stepSize_def)
  show ?thesis
    unfolding simulationStep_def Let_def
    by (simp only: h f sn rc sum.case)
qed

lemma queue_step2: "simulationStep queueParams 2 queueState2 = Inr queueState3"
proof -
  let ?a = "queueState2\<lparr>timeToNextArrival := Num (- ln (1 / 2) / (10 / 60) - 1 / 10)\<rparr>"
  let ?b = "queueState3\<lparr>timeSeries := timeSeries queueState2\<rparr>"
  have due: "\<not> js_le (js_sub (timeToNextArrival queueState2) (Num stepSize)) (Num 0)"
    using not_due_half by (simp add: queueState2_def)
  have h: "handleArrivals queueParams (real 2 * stepSize) queueState2 = Inr ?a"
    unfolding handleArrivals_def Let_def
    by (simp only: due if_False)
       (simp add: queueState2_def js_sub_def stepSize_def)
  have p: "processPrimaryStation queueParams (real 2 * stepSize) 0 ?a = Inr ?b"
    by (simp add: processPrimaryStation_def completePrimary_def startPrimary_def Let_def
        queueState0_def queueState1_def queueState2_def queueState3_def js_sub_def stepSize_def
        travelerA_def travelerB_def queueParams_def service_mean accumulateBusy_2)
  have l: "[0..<length (primaryStations ?a)] = [0]"
    by (simp add: queueState2_def)
  have f: "forEachPrimary queueParams (real 2 * stepSize) [0..<length (primaryStations ?a)] ?a
      = Inr ?b"
    unfolding l by (simp only: forEachPrimary.simps p sum.case)
  have sn: "startSenior queueParams (completeSenior ?b) = Inr ?b"
    by (simp add: completeSenior_def startSenior_def Let_def queueState3_def queueState2_def
        queueState1_def queueState0_def idleStation_def)
  have rc: "recordTimeSeries (real 2 * stepSize) ?b = queueState3"
    by (simp add: recordTimeSeries_def Let_def queueState3_def queueState2_def queueState1_def
        queueState0_def idleStation_def stepSize_def)
  show ?thesis
    unfolding simulationStep_def Let_def
    by (simp only: h f sn rc sum.case)
qed

lemma queue_runSteps: "runSteps queueParams 0 3 queueState0 = Inr queueState3"
proof -
  have "runSteps queueParams 0 (Suc (Suc (Suc 0))) queueState0 = Inr queueState3"
    using queue_step0 queue_step1 queue_step2 by (simp add: eval_nat_numeral)
  then show ?thesis by (simp add: eval_nat_numeral)
qed

lemma queue_totalSteps: "totalSteps queueParams = 3"
proof -
  have "toDouble (3 / 10 / (3602879701896397 / 36028797018963968)) = 3"
    by (rule trans [OF toDouble_eval [where p = 51 and n = 6755399441055744]])
       (simp_all add: roundHalfEven_def)
  then show ?thesis
    by (simp add: totalSteps_def queueParams_def stepSize_def toDouble_stepSize)
qed

lemma queue_finalState: "finalState queueParams queueTape = Inr queueState3"
proof -
  have "totalSteps queueParams = 3" by (rule queue_totalSteps)
  then show ?thesis
    by (simp only: finalState_def stateAfter_def queue_initialState queue_runSteps sum.case)
qed

lemma queue_validTape: "validTape queueTape"
  by (simp add: validTape_def queueTape_def)


lemma queue_stateAfter: "stateAfter queueParams queueTape 3 = Inr queueState3"
  by (simp only: stateAfter_def queue_initialState queue_runSteps sum.case)

lemma queue_runSimulation:
  "runSimulation queueParams queueTape = Inr (summarize queueParams queueState3)"
  by (simp only: runSimulation_def queue_finalState sum.case)

subsection \<open>A station is busy exactly when it holds a traveler (C8)\<close>

lemma list_all_update:
  "list_all P xs \<Longrightarrow> P y \<Longrightarrow> list_all P (xs[i := y])"
  by (induction xs arbitrary: i) (auto split: nat.splits)

lemma busyIffTraveler_handleArrivals:
  assumes "busyIffTraveler s" and "handleArrivals params t s = Inr s'"
  shows "busyIffTraveler s'"
proof -
  from handleArrivals_frame [OF assms(2)]
  have l: "length (primaryStations s') = length (primaryStations s)"
    and b: "map busy (primaryStations s') = map busy (primaryStations s)"
    and tr: "map traveler (primaryStations s') = map traveler (primaryStations s)"
    and sn: "seniorStation s' = seniorStation s" by simp_all
  have "\<And>i. i < length (primaryStations s) \<Longrightarrow> stationOk (primaryStations s' ! i)"
  proof -
    fix i assume i: "i < length (primaryStations s)"
    from b have "map busy (primaryStations s') ! i = map busy (primaryStations s) ! i"
      by simp
    with i l have "busy (primaryStations s' ! i) = busy (primaryStations s ! i)"
      by simp
    moreover from tr have "map traveler (primaryStations s') ! i = map traveler (primaryStations s) ! i"
      by simp
    with i l have "traveler (primaryStations s' ! i) = traveler (primaryStations s ! i)"
      by simp
    moreover from assms(1) i have "stationOk (primaryStations s ! i)"
      by (simp add: busyIffTraveler_def list_all_length)
    ultimately show "stationOk (primaryStations s' ! i)" by (simp add: stationOk_def)
  qed
  with l sn assms(1) show ?thesis by (simp add: busyIffTraveler_def list_all_length)
qed

lemma busyIffTraveler_completePrimary:
  assumes "busyIffTraveler s" and "i < length (primaryStations s)"
  shows "busyIffTraveler (completePrimary i s)"
proof -
  from assms have ok: "stationOk (primaryStations s ! i)"
    by (simp add: busyIffTraveler_def list_all_length)
  show ?thesis
    using assms(1) ok
    by (auto simp: completePrimary_def Let_def busyIffTraveler_def stationOk_def
        intro!: list_all_update split: option.splits)
qed

lemma busyIffTraveler_startPrimary:
  assumes "busyIffTraveler s" and "startPrimary params t i s = Inr s'"
  shows "busyIffTraveler s'"
  using assms
  by (auto simp: startPrimary_def Let_def busyIffTraveler_def stationOk_def
      intro!: list_all_update split: sum.splits list.splits if_splits)

lemma completePrimary_length:
  "length (primaryStations (completePrimary i s)) = length (primaryStations s)"
  by (simp add: completePrimary_def Let_def)

lemma startPrimary_length:
  "startPrimary params t i s = Inr s' \<Longrightarrow>
     length (primaryStations s') = length (primaryStations s)"
  by (auto simp: startPrimary_def Let_def split: sum.splits list.splits if_splits)

lemma processPrimaryStation_length:
  "processPrimaryStation params t i s = Inr s' \<Longrightarrow>
     length (primaryStations s') = length (primaryStations s)"
  by (simp add: processPrimaryStation_def startPrimary_length completePrimary_length)

lemma busyIffTraveler_forEachPrimary:
  assumes "busyIffTraveler s" and "\<forall>i\<in>set indices. i < length (primaryStations s)"
    and "forEachPrimary params t indices s = Inr s'"
  shows "busyIffTraveler s'"
proof -
  let ?I = "\<lambda>x. busyIffTraveler x \<and> length (primaryStations x) = length (primaryStations s)"
  have "?I s'"
  proof (rule forEachPrimary_invariant [where I = ?I, OF _ _ assms(3)])
    fix i x x'
    assume I: "?I x" and i: "i \<in> set indices"
      and p: "processPrimaryStation params t i x = Inr x'"
    from i assms(2) I have il: "i < length (primaryStations x)" by simp
    from busyIffTraveler_completePrimary [OF _ il] I
    have "busyIffTraveler (completePrimary i x)" by simp
    from busyIffTraveler_startPrimary [OF this p [unfolded processPrimaryStation_def]]
    have "busyIffTraveler x'" .
    with processPrimaryStation_length [OF p] I show "?I x'" by simp
  next
    show "?I s" using assms(1) by simp
  qed
  then show ?thesis by simp
qed

lemma busyIffTraveler_completeSenior:
  "busyIffTraveler s \<Longrightarrow> busyIffTraveler (completeSenior s)"
  by (auto simp: completeSenior_def Let_def busyIffTraveler_def stationOk_def)

lemma busyIffTraveler_startSenior:
  "busyIffTraveler s \<Longrightarrow> startSenior params s = Inr s' \<Longrightarrow> busyIffTraveler s'"
  by (auto simp: startSenior_def Let_def busyIffTraveler_def stationOk_def
      split: sum.splits list.splits if_splits)

lemma busyIffTraveler_recordTimeSeries:
  "busyIffTraveler s \<Longrightarrow> busyIffTraveler (recordTimeSeries t s)"
  by (simp add: recordTimeSeries_def Let_def busyIffTraveler_def)

lemma busyIffTraveler_simulationStep:
  assumes "busyIffTraveler s" and "simulationStep params step s = Inr s'"
  shows "busyIffTraveler s'"
proof -
  from assms(2) obtain s1 s2 s3 where
    1: "handleArrivals params (real step * stepSize) s = Inr s1" and
    2: "forEachPrimary params (real step * stepSize) [0..<length (primaryStations s1)] s1 = Inr s2" and
    3: "startSenior params (completeSenior s2) = Inr s3" and
    4: "s' = recordTimeSeries (real step * stepSize) s3"
    by (rule simulationStep_cases)
  from busyIffTraveler_handleArrivals [OF assms(1) 1] have "busyIffTraveler s1" .
  from busyIffTraveler_forEachPrimary [OF this _ 2] have "busyIffTraveler s2" by simp
  from busyIffTraveler_startSenior [OF busyIffTraveler_completeSenior [OF this] 3]
  have "busyIffTraveler s3" .
  with 4 show ?thesis by (simp add: busyIffTraveler_recordTimeSeries)
qed

lemma busyIffTraveler_initialState:
  "initialState params tape = Inr s \<Longrightarrow> busyIffTraveler s"
  by (auto simp: initialState_def busyIffTraveler_def stationOk_def idleStation_def
      list_all_length split: sum.splits)

text \<open>
  Claim C8: at the end of every simulation step, every primary station and the senior
  station is busy if and only if its traveler slot is not null, and each step preserves
  this from the initial all-idle state. \<open>stateAfter params tape k\<close> is the state at the
  end of step \<open>k - 1\<close> (the initial state for \<open>k = 0\<close>): it satisfies the invariant for
  every \<open>k\<close>, and every step that returns takes a state that satisfies it to one that
  does.
\<close>

theorem busy_iff_traveler_invariant:
  "(stateAfter params tape k = Inr s \<longrightarrow> busyIffTraveler s) \<and>
   (busyIffTraveler s \<and> simulationStep params step s = Inr s' \<longrightarrow> busyIffTraveler s')"
proof (intro conjI impI)
  assume a: "stateAfter params tape k = Inr s"
  from a obtain s0 where s0: "initialState params tape = Inr s0"
    and r: "runSteps params 0 k s0 = Inr s"
    by (auto simp: stateAfter_def split: sum.splits)
  from busyIffTraveler_initialState [OF s0] have "busyIffTraveler s0" .
  from runSteps_invariant [where I = busyIffTraveler, OF busyIffTraveler_simulationStep this r]
  show "busyIffTraveler s" .
next
  assume "busyIffTraveler s \<and> simulationStep params step s = Inr s'"
  then show "busyIffTraveler s'" using busyIffTraveler_simulationStep by blast
qed

text \<open>
  The second example run: at the end of its three steps the station is busy and holds
  traveler B; the senior station is idle and holds none.
\<close>

theorem busy_iff_traveler_invariant_witness:
  "stateAfter queueParams queueTape 3 = Inr queueState3 \<and>
   busyIffTraveler queueState3 \<and>
   map busy (primaryStations queueState3) = [True] \<and>
   map traveler (primaryStations queueState3)
     = [Some (travelerB\<lparr>startServiceTime := Some (2 / 10)\<rparr>)] \<and>
   \<not> busy (seniorStation queueState3) \<and> traveler (seniorStation queueState3) = None"
proof -
  have 1: "stateAfter queueParams queueTape 3 = Inr queueState3"
    by (rule queue_stateAfter)
  from busy_iff_traveler_invariant [of queueParams queueTape 3 queueState3] 1
  have 2: "busyIffTraveler queueState3" by blast
  have 3: "map busy (primaryStations queueState3) = [True]"
    "map traveler (primaryStations queueState3)
       = [Some (travelerB\<lparr>startServiceTime := Some (2 / 10)\<rparr>)]"
    "\<not> busy (seniorStation queueState3)" "traveler (seniorStation queueState3) = None"
    by (simp_all add: queueState3_def queueState2_def queueState1_def queueState0_def
        idleStation_def)
  from 1 2 3 show ?thesis by blast
qed

subsection \<open>Waiting-time samples and completed services (C3)\<close>

lemma filter_update_count:
  "i < length xs \<Longrightarrow>
     length (filter P (xs[i := y])) + (if P (xs ! i) then 1 else 0) =
     length (filter P xs) + (if P y then 1 else 0)"
proof (induction xs arbitrary: i)
  case Nil
  then show ?case by simp
next
  case (Cons x xs)
  show ?case
  proof (cases i)
    case 0
    then show ?thesis by simp
  next
    case (Suc j)
    with Cons.prems have "j < length xs" by simp
    from Cons.IH [OF this] Suc show ?thesis by simp
  qed
qed

lemma length_filter_busy_map:
  "length (filter busy xs) = length (filter (\<lambda>b. b) (map busy xs))"
  by (simp add: filter_map comp_def)

lemma started_handleArrivals:
  assumes "startedIsCompletedPlusBusy s" and "handleArrivals params t s = Inr s'"
  shows "startedIsCompletedPlusBusy s'"
  using assms handleArrivals_frame [OF assms(2)]
  by (simp add: startedIsCompletedPlusBusy_def length_filter_busy_map)

lemma started_completePrimary:
  assumes "startedIsCompletedPlusBusy s" and "i < length (primaryStations s)"
  shows "startedIsCompletedPlusBusy (completePrimary i s)"
proof (cases "busy (primaryStations s ! i)")
  case False
  then show ?thesis using assms(1) by (simp add: completePrimary_def Let_def)
next
  case True
  let ?st = "primaryStations s ! i"
  let ?st1 = "?st\<lparr>remainingTime := js_sub (remainingTime ?st) (Num stepSize)\<rparr>"
  show ?thesis
  proof (cases "js_le (js_sub (remainingTime ?st) (Num stepSize)) (Num 0)")
    case completes: True
    from filter_update_count [OF assms(2), of busy "?st1\<lparr>busy := False, traveler := None\<rparr>"] True
    have "length (filter busy ((primaryStations s)[i := ?st1\<lparr>busy := False, traveler := None\<rparr>])) + 1
        = length (filter busy (primaryStations s))" by simp
    with assms(1) True completes show ?thesis
      by (simp add: completePrimary_def Let_def startedIsCompletedPlusBusy_def)
  next
    case continues: False
    from filter_update_count [OF assms(2), of busy ?st1] True
    have "length (filter busy ((primaryStations s)[i := ?st1]))
        = length (filter busy (primaryStations s))" by simp
    with assms(1) True continues show ?thesis
      by (simp add: completePrimary_def Let_def startedIsCompletedPlusBusy_def)
  qed
qed

lemma started_startPrimary:
  assumes "startedIsCompletedPlusBusy s" and "i < length (primaryStations s)"
    and "startPrimary params t i s = Inr s'"
  shows "startedIsCompletedPlusBusy s'"
proof (cases "\<not> busy (primaryStations s ! i) \<and> queue (primaryStations s ! i) \<noteq> []")
  case False
  with assms(3) have "s' = s"
    by (auto simp: startPrimary_def Let_def split: list.splits)
  with assms(1) show ?thesis by simp
next
  case True
  let ?st = "primaryStations s ! i"
  from True obtain first remaining where q: "queue ?st = first # remaining"
    by (cases "queue ?st") auto
  from assms(3) True q obtain serviceTime rest where
    tn: "truncatedNormal (mu1 params) (sigma1 params) (rng s) = Inr (serviceTime, rest)"
    by (auto simp: startPrimary_def Let_def split: sum.splits)
  let ?st' = "?st\<lparr>busy := True, remainingTime := serviceTime,
      traveler := Some (first\<lparr>startServiceTime := Some t\<rparr>), queue := remaining\<rparr>"
  from assms(3) True q tn have s': "s' = s\<lparr>primaryStations := (primaryStations s)[i := ?st'],
      waitingTimes := waitingTimes s @ [t - arrivalTime first],
      primaryServiceTimes := primaryServiceTimes s @ [serviceTime], rng := rest\<rparr>"
    by (simp add: startPrimary_def Let_def)
  from filter_update_count [OF assms(2), of busy ?st'] True
  have "length (filter busy ((primaryStations s)[i := ?st']))
      = length (filter busy (primaryStations s)) + 1" by simp
  with assms(1) show ?thesis by (simp add: s' startedIsCompletedPlusBusy_def)
qed

lemma started_forEachPrimary:
  assumes "startedIsCompletedPlusBusy s" and "\<forall>i\<in>set indices. i < length (primaryStations s)"
    and "forEachPrimary params t indices s = Inr s'"
  shows "startedIsCompletedPlusBusy s'"
proof -
  let ?I = "\<lambda>x. startedIsCompletedPlusBusy x \<and>
    length (primaryStations x) = length (primaryStations s)"
  have "?I s'"
  proof (rule forEachPrimary_invariant [where I = ?I, OF _ _ assms(3)])
    fix i x x'
    assume I: "?I x" and i: "i \<in> set indices"
      and p: "processPrimaryStation params t i x = Inr x'"
    from i assms(2) I have il: "i < length (primaryStations x)" by simp
    from started_completePrimary [OF _ il] I
    have "startedIsCompletedPlusBusy (completePrimary i x)" by simp
    from started_startPrimary [OF this _ p [unfolded processPrimaryStation_def]] il
    have "startedIsCompletedPlusBusy x'" by (simp add: completePrimary_length)
    with processPrimaryStation_length [OF p] I show "?I x'" by simp
  next
    show "?I s" using assms(1) by simp
  qed
  then show ?thesis by simp
qed

lemma started_completeSenior:
  "startedIsCompletedPlusBusy s \<Longrightarrow> startedIsCompletedPlusBusy (completeSenior s)"
  by (simp add: completeSenior_def Let_def startedIsCompletedPlusBusy_def)

lemma started_startSenior:
  "startedIsCompletedPlusBusy s \<Longrightarrow> startSenior params s = Inr s' \<Longrightarrow>
     startedIsCompletedPlusBusy s'"
  by (auto simp: startSenior_def Let_def startedIsCompletedPlusBusy_def
      split: sum.splits list.splits if_splits)

lemma started_recordTimeSeries:
  "startedIsCompletedPlusBusy s \<Longrightarrow> startedIsCompletedPlusBusy (recordTimeSeries t s)"
  by (simp add: recordTimeSeries_def Let_def startedIsCompletedPlusBusy_def)

lemma started_simulationStep:
  assumes "startedIsCompletedPlusBusy s" and "simulationStep params step s = Inr s'"
  shows "startedIsCompletedPlusBusy s'"
proof -
  from assms(2) obtain s1 s2 s3 where
    1: "handleArrivals params (real step * stepSize) s = Inr s1" and
    2: "forEachPrimary params (real step * stepSize) [0..<length (primaryStations s1)] s1 = Inr s2" and
    3: "startSenior params (completeSenior s2) = Inr s3" and
    4: "s' = recordTimeSeries (real step * stepSize) s3"
    by (rule simulationStep_cases)
  from started_handleArrivals [OF assms(1) 1] have "startedIsCompletedPlusBusy s1" .
  from started_forEachPrimary [OF this _ 2] have "startedIsCompletedPlusBusy s2" by simp
  from started_startSenior [OF started_completeSenior [OF this] 3]
  have "startedIsCompletedPlusBusy s3" .
  with 4 show ?thesis by (simp add: started_recordTimeSeries)
qed

lemma started_initialState:
  "initialState params tape = Inr s \<Longrightarrow> startedIsCompletedPlusBusy s"
  by (auto simp: initialState_def startedIsCompletedPlusBusy_def idleStation_def
      split: sum.splits)

text \<open>
  Claim C3 says that at the end of every run the number of travelers that completed
  primary service equals the number of waiting-time samples. In the example run one
  traveler arrives and starts service in the only step: its waiting time is recorded
  at the start of its service, which is not yet completed when the run ends. There is
  one sample and no completed service.
\<close>

theorem conservation_counterexample:
  "finalState exampleParams (exampleTape (1 / 2)) = Inr (exampleFinal (1 / 2)) \<and>
   completedPrimary (exampleFinal (1 / 2)) = 0 \<and>
   length (waitingTimes (exampleFinal (1 / 2))) = 1"
  by (simp add: example_finalState exampleFinal_def exampleServing_def exampleArrived_def
      exampleInitial_def)

text \<open>
  Claim C3, amended: at the end of every run the number of waiting-time samples equals
  the number of travelers that started primary service, which is the number that
  completed primary service plus the number still in service at a primary station (the
  busy primary stations).
\<close>

theorem waiting_samples_are_started_services:
  assumes "finalState params tape = Inr s"
  shows "length (waitingTimes s) = completedPrimary s + length (filter busy (primaryStations s))"
proof -
  from assms obtain s0 where s0: "initialState params tape = Inr s0"
    and r: "runSteps params 0 (totalSteps params) s0 = Inr s"
    by (auto simp: finalState_def stateAfter_def split: sum.splits)
  from started_initialState [OF s0] have "startedIsCompletedPlusBusy s0" .
  from runSteps_invariant [where I = startedIsCompletedPlusBusy, OF started_simulationStep this r]
  show ?thesis by (simp add: startedIsCompletedPlusBusy_def)
qed

text \<open>The second example run: two samples, one completed service (traveler A) and one
  busy primary station (traveler B in service).\<close>

theorem waiting_samples_are_started_services_witness:
  "finalState queueParams queueTape = Inr queueState3 \<and>
   length (waitingTimes queueState3) = 2 \<and>
   completedPrimary queueState3 = 1 \<and>
   length (filter busy (primaryStations queueState3)) = 1"
proof -
  have 1: "finalState queueParams queueTape = Inr queueState3"
    by (rule queue_finalState)
  have 2: "length (waitingTimes queueState3) = 2" "completedPrimary queueState3 = 1"
    by (simp_all add: queueState3_def)
  from waiting_samples_are_started_services [OF 1] 2
  have "length (filter busy (primaryStations queueState3)) = 1" by simp
  with 1 2 show ?thesis by blast
qed

subsection \<open>Utilization and the accumulated busy times (C6)\<close>

lemma completePrimary_frame:
  "length (primaryStations (completePrimary i s)) = length (primaryStations s) \<and>
   stationBusyTime (completePrimary i s) =
     (if busy (primaryStations s ! i)
      then (stationBusyTime s)[i := addStepSize (stationBusyTime s ! i)]
      else stationBusyTime s) \<and>
   seniorBusyTime (completePrimary i s) = seniorBusyTime s \<and>
   busy (seniorStation (completePrimary i s)) = busy (seniorStation s) \<and>
   (\<forall>j. j \<noteq> i \<longrightarrow> primaryStations (completePrimary i s) ! j = primaryStations s ! j)"
  by (simp add: completePrimary_def Let_def split: option.splits)

lemma startPrimary_frame:
  "startPrimary params t i s = Inr s' \<Longrightarrow>
     length (primaryStations s') = length (primaryStations s) \<and>
     stationBusyTime s' = stationBusyTime s \<and>
     seniorBusyTime s' = seniorBusyTime s \<and>
     seniorStation s' = seniorStation s \<and>
     (\<forall>j. j \<noteq> i \<longrightarrow> primaryStations s' ! j = primaryStations s ! j)"
  by (auto simp: startPrimary_def Let_def split: sum.splits list.splits if_splits)

lemma processPrimaryStation_frame:
  assumes "processPrimaryStation params t i s = Inr s'"
  shows "length (primaryStations s') = length (primaryStations s)"
    and "stationBusyTime s' =
     (if busy (primaryStations s ! i)
      then (stationBusyTime s)[i := addStepSize (stationBusyTime s ! i)]
      else stationBusyTime s)"
    and "seniorBusyTime s' = seniorBusyTime s"
    and "busy (seniorStation s') = busy (seniorStation s)"
    and "\<And>j. j \<noteq> i \<Longrightarrow> primaryStations s' ! j = primaryStations s ! j"
  using startPrimary_frame [OF assms [unfolded processPrimaryStation_def]]
    completePrimary_frame [of i s]
  by simp_all

lemma forEachPrimary_untouched:
  assumes "i \<notin> set indices" and "forEachPrimary params t indices s = Inr s'"
  shows "stationBusyTime s' ! i = stationBusyTime s ! i"
  using assms
proof (induction indices arbitrary: s)
  case Nil
  then show ?case by simp
next
  case (Cons j indices)
  from Cons.prems(2) obtain s1 where s1: "processPrimaryStation params t j s = Inr s1"
    and rest: "forEachPrimary params t indices s1 = Inr s'"
    by (auto split: sum.splits)
  from Cons.prems(1) have ni: "i \<notin> set indices" and ij: "j \<noteq> i" by auto
  from processPrimaryStation_frame(2) [OF s1] ij
  have "stationBusyTime s1 ! i = stationBusyTime s ! i" by simp
  with Cons.IH [OF ni rest] show ?case by simp
qed

lemma forEachPrimary_busyTime:
  assumes "distinct indices" and "\<forall>i\<in>set indices. i < length (primaryStations s)"
    and "forEachPrimary params t indices s = Inr s'"
  shows "length (primaryStations s') = length (primaryStations s) \<and>
         length (stationBusyTime s') = length (stationBusyTime s) \<and>
         seniorBusyTime s' = seniorBusyTime s \<and>
         busy (seniorStation s') = busy (seniorStation s) \<and>
         (\<forall>j<length (stationBusyTime s).
            stationBusyTime s' ! j = stationBusyTime s ! j \<or>
            stationBusyTime s' ! j = addStepSize (stationBusyTime s ! j))"
  using assms
proof (induction indices arbitrary: s)
  case Nil
  then show ?case by simp
next
  case (Cons i indices)
  from Cons.prems(3) obtain s1 where s1: "processPrimaryStation params t i s = Inr s1"
    and rest: "forEachPrimary params t indices s1 = Inr s'"
    by (auto split: sum.splits)
  note f = processPrimaryStation_frame [OF s1]
  from Cons.prems(1) have d: "distinct indices" and ni: "i \<notin> set indices" by simp_all
  from Cons.prems(2) f(1) have r: "\<forall>i\<in>set indices. i < length (primaryStations s1)" by simp
  note IH = Cons.IH [OF d r rest]
  have l1: "length (stationBusyTime s1) = length (stationBusyTime s)"
    using f(2) by simp
  have "\<forall>j<length (stationBusyTime s).
          stationBusyTime s' ! j = stationBusyTime s ! j \<or>
          stationBusyTime s' ! j = addStepSize (stationBusyTime s ! j)"
  proof (intro allI impI)
    fix j assume j: "j < length (stationBusyTime s)"
    with IH l1 have a: "stationBusyTime s' ! j = stationBusyTime s1 ! j \<or>
        stationBusyTime s' ! j = addStepSize (stationBusyTime s1 ! j)"
      by simp
    show "stationBusyTime s' ! j = stationBusyTime s ! j \<or>
          stationBusyTime s' ! j = addStepSize (stationBusyTime s ! j)"
    proof (cases "j = i")
      case True
      have "i \<notin> set indices" by (rule ni)
      from forEachPrimary_untouched [OF this rest]
      have "stationBusyTime s' ! i = stationBusyTime s1 ! i" .
      moreover from f(2) j True have "stationBusyTime s1 ! i = stationBusyTime s ! i \<or>
          stationBusyTime s1 ! i = addStepSize (stationBusyTime s ! i)"
        by simp
      ultimately show ?thesis using True by simp
    next
      case False
      with f(2) have "stationBusyTime s1 ! j = stationBusyTime s ! j" by simp
      with a show ?thesis by simp
    qed
  qed
  with IH f l1 show ?case by simp
qed

lemma forEachPrimary_idle:
  assumes "distinct indices" and "\<forall>i\<in>set indices. \<not> busy (primaryStations s ! i)"
    and "forEachPrimary params t indices s = Inr s'"
  shows "stationBusyTime s' = stationBusyTime s"
  using assms
proof (induction indices arbitrary: s)
  case Nil
  then show ?case by simp
next
  case (Cons i indices)
  from Cons.prems(3) obtain s1 where s1: "processPrimaryStation params t i s = Inr s1"
    and rest: "forEachPrimary params t indices s1 = Inr s'"
    by (auto split: sum.splits)
  note f = processPrimaryStation_frame [OF s1]
  from Cons.prems(1) have d: "distinct indices" and ni: "i \<notin> set indices" by simp_all
  have "\<forall>j\<in>set indices. \<not> busy (primaryStations s1 ! j)"
  proof
    fix j assume j: "j \<in> set indices"
    with ni have "j \<noteq> i" by auto
    from f(5) [OF this] j Cons.prems(2) show "\<not> busy (primaryStations s1 ! j)" by simp
  qed
  from Cons.IH [OF d this rest] f(2) Cons.prems(2) show ?case by simp
qed

lemma completeSenior_frame:
  "primaryStations (completeSenior s) = primaryStations s \<and>
   stationBusyTime (completeSenior s) = stationBusyTime s \<and>
   seniorBusyTime (completeSenior s) =
     (if busy (seniorStation s) then addStepSize (seniorBusyTime s) else seniorBusyTime s)"
  by (simp add: completeSenior_def Let_def)

lemma startSenior_frame:
  "startSenior params s = Inr s' \<Longrightarrow>
     primaryStations s' = primaryStations s \<and> stationBusyTime s' = stationBusyTime s \<and>
     seniorBusyTime s' = seniorBusyTime s"
  by (auto simp: startSenior_def Let_def split: sum.splits list.splits if_splits)

lemma recordTimeSeries_frame:
  "primaryStations (recordTimeSeries t s) = primaryStations s \<and>
   stationBusyTime (recordTimeSeries t s) = stationBusyTime s \<and>
   seniorBusyTime (recordTimeSeries t s) = seniorBusyTime s"
  by (simp add: recordTimeSeries_def Let_def)

lemma simulationStep_busyTime:
  assumes "length (stationBusyTime s) = length (primaryStations s)"
    and "simulationStep params step s = Inr s'"
  shows "length (primaryStations s') = length (primaryStations s)"
    and "length (stationBusyTime s') = length (stationBusyTime s)"
    and "\<forall>j<length (stationBusyTime s).
            stationBusyTime s' ! j = stationBusyTime s ! j \<or>
            stationBusyTime s' ! j = addStepSize (stationBusyTime s ! j)"
    and "seniorBusyTime s' = seniorBusyTime s \<or> seniorBusyTime s' = addStepSize (seniorBusyTime s)"
    and "allIdle s \<Longrightarrow> stationBusyTime s' = stationBusyTime s \<and> seniorBusyTime s' = seniorBusyTime s"
proof -
  from assms(2) obtain s1 s2 s3 where
    1: "handleArrivals params (real step * stepSize) s = Inr s1" and
    2: "forEachPrimary params (real step * stepSize) [0..<length (primaryStations s1)] s1 = Inr s2" and
    3: "startSenior params (completeSenior s2) = Inr s3" and
    4: "s' = recordTimeSeries (real step * stepSize) s3"
    by (rule simulationStep_cases)
  note h = handleArrivals_frame [OF 1]
  have "distinct [0..<length (primaryStations s1)]" by simp
  note f = forEachPrimary_busyTime [OF this _ 2, simplified]
  note c = completeSenior_frame [of s2]
  note st = startSenior_frame [OF 3]
  note r = recordTimeSeries_frame [of "real step * stepSize" s3]
  have bt': "stationBusyTime s' = stationBusyTime s2" using 4 r st c by simp
  have sbt': "seniorBusyTime s' =
      (if busy (seniorStation s) then addStepSize (seniorBusyTime s) else seniorBusyTime s)"
    using 4 r st c f h by simp
  show "length (primaryStations s') = length (primaryStations s)"
    using 4 r st c f h by simp
  show "length (stationBusyTime s') = length (stationBusyTime s)"
    using bt' f h by simp
  show "\<forall>j<length (stationBusyTime s).
            stationBusyTime s' ! j = stationBusyTime s ! j \<or>
            stationBusyTime s' ! j = addStepSize (stationBusyTime s ! j)"
    using f h bt' by simp
  show "seniorBusyTime s' = seniorBusyTime s \<or> seniorBusyTime s' = addStepSize (seniorBusyTime s)"
    using sbt' by simp
  show "stationBusyTime s' = stationBusyTime s \<and> seniorBusyTime s' = seniorBusyTime s"
    if idle: "allIdle s"
  proof -
    from idle have "list_all (\<lambda>b. \<not> b) (map busy (primaryStations s))"
      by (simp add: allIdle_def list_all_iff)
    with h have "list_all (\<lambda>b. \<not> b) (map busy (primaryStations s1))" by simp
    then have "\<forall>i\<in>set [0..<length (primaryStations s1)]. \<not> busy (primaryStations s1 ! i)"
      by (simp add: list_all_length)
    from forEachPrimary_idle [OF _ this 2] have "stationBusyTime s2 = stationBusyTime s1" by simp
    with bt' h sbt' idle show ?thesis by (simp add: allIdle_def)
  qed
qed

lemma busyTimesAccumulated_simulationStep:
  assumes "busyTimesAccumulated b s" and "simulationStep params step s = Inr s'"
  shows "busyTimesAccumulated (Suc b) s'"
proof -
  from assms(1) have l: "length (stationBusyTime s) = length (primaryStations s)"
    by (simp add: busyTimesAccumulated_def)
  note f = simulationStep_busyTime [OF l assms(2)]
  have next_value: "\<exists>k\<le>Suc b. t' = accumulateBusy k"
    if "\<exists>k\<le>b. t = accumulateBusy k" and "t' = t \<or> t' = addStepSize t" for t t'
  proof -
    from that(1) obtain k where k: "k \<le> b" "t = accumulateBusy k" by blast
    from that(2) show ?thesis
    proof
      assume "t' = t"
      with k show ?thesis by (intro exI [of _ k]) simp
    next
      assume "t' = addStepSize t"
      with k show ?thesis by (intro exI [of _ "Suc k"]) simp
    qed
  qed
  have "\<forall>j<length (stationBusyTime s'). \<exists>k\<le>Suc b. stationBusyTime s' ! j = accumulateBusy k"
  proof (intro allI impI)
    fix j assume "j < length (stationBusyTime s')"
    with f(2) have j: "j < length (stationBusyTime s)" by simp
    with assms(1) have "\<exists>k\<le>b. stationBusyTime s ! j = accumulateBusy k"
      by (simp add: busyTimesAccumulated_def list_all_length)
    moreover from f(3) j have "stationBusyTime s' ! j = stationBusyTime s ! j \<or>
        stationBusyTime s' ! j = addStepSize (stationBusyTime s ! j)" by simp
    ultimately show "\<exists>k\<le>Suc b. stationBusyTime s' ! j = accumulateBusy k"
      by (rule next_value)
  qed
  moreover from assms(1) have "\<exists>k\<le>b. seniorBusyTime s = accumulateBusy k"
    by (simp add: busyTimesAccumulated_def)
  from next_value [OF this f(4)] have "\<exists>k\<le>Suc b. seniorBusyTime s' = accumulateBusy k" .
  ultimately show ?thesis using f(1,2) l
    by (simp add: busyTimesAccumulated_def list_all_length)
qed

lemma busyTimesAccumulated_runSteps:
  "busyTimesAccumulated b s \<Longrightarrow> runSteps params step n s = Inr s' \<Longrightarrow>
     busyTimesAccumulated (b + n) s'"
proof (induction n arbitrary: b step s)
  case 0
  then show ?case by simp
next
  case (Suc n)
  from Suc.prems(2) obtain s1 where s1: "simulationStep params step s = Inr s1"
    and rest: "runSteps params (Suc step) n s1 = Inr s'"
    by (auto split: sum.splits)
  from busyTimesAccumulated_simulationStep [OF Suc.prems(1) s1]
  have "busyTimesAccumulated (Suc b) s1" .
  from Suc.IH [OF this rest] show ?case by simp
qed

lemma initialState_idle:
  "initialState params tape = Inr s \<Longrightarrow> busyTimesAccumulated 0 s \<and> allIdle s"
  by (auto simp: initialState_def busyTimesAccumulated_def allIdle_def idleStation_def
      list_all_length split: sum.splits)

lemma finalState_busyTime:
  assumes "finalState params tape = Inr s"
  shows "busyTimesAccumulated (totalSteps params - 1) s"
proof -
  from assms obtain s0 where s0: "initialState params tape = Inr s0"
    and r: "runSteps params 0 (totalSteps params) s0 = Inr s"
    by (auto simp: finalState_def stateAfter_def split: sum.splits)
  from initialState_idle [OF s0] have b0: "busyTimesAccumulated 0 s0" and idle: "allIdle s0"
    by simp_all
  show ?thesis
  proof (cases "totalSteps params")
    case 0
    with r b0 show ?thesis by simp
  next
    case (Suc m)
    with r obtain s1 where s1: "simulationStep params 0 s0 = Inr s1"
      and rest: "runSteps params (Suc 0) m s1 = Inr s"
      by (auto split: sum.splits)
    from b0 have l: "length (stationBusyTime s0) = length (primaryStations s0)"
      by (simp add: busyTimesAccumulated_def)
    from simulationStep_busyTime(1,2,5) [OF l s1] idle b0 have "busyTimesAccumulated 0 s1"
      by (simp add: busyTimesAccumulated_def)
    from busyTimesAccumulated_runSteps [OF this rest] Suc show ?thesis by simp
  qed
qed

lemma accumulateBusy_nonneg: "0 \<le> accumulateBusy k"
proof (induction k)
  case 0
  show ?case by simp
next
  case (Suc k)
  have "0 \<le> toDouble stepSize" by (rule toDouble_nonneg) (simp add: stepSize_def)
  with Suc have "0 \<le> accumulateBusy k + toDouble stepSize" by simp
  then show ?case by (simp add: addStepSize_def toDouble_nonneg)
qed

lemma utilization_nonneg:
  assumes "0 < T"
  shows "js_le (Num 0) (js_div_d (Num (accumulateBusy k)) (Num T))"
proof -
  have "0 \<le> accumulateBusy k / T" using assms accumulateBusy_nonneg [of k] by simp
  from js_round_nonneg [OF this] show ?thesis using assms by (auto simp: js_div_d_def)
qed

lemma accumulateBusy_le: "accumulateBusy k \<le> busyBound k"
proof (induction k)
  case 0
  show ?case by (simp add: busyBound_def)
next
  case (Suc k)
  let ?d = "toDouble stepSize"
  let ?e = "(1 + 1 / 2 ^ 53 :: real)"
  have d: "?d = 3602879701896397 / 36028797018963968"
    by (simp add: stepSize_def toDouble_stepSize)
  have dpos: "0 < ?d" by (simp add: d)
  have e1: "1 \<le> ?e ^ k" by (rule one_le_power) simp
  have "(2::real) powi (- 1022) \<le> 2 powi (- 4)" by (intro power_int_increasing) simp_all
  also have "(2::real) powi (- 4) = 1 / 16"
    using power_int_minus_divide [of "2::real" 4] by (simp add: powi_nat)
  also have "(1 / 16 :: real) \<le> ?d" by (simp add: d)
  also have "?d \<le> accumulateBusy k + ?d" using accumulateBusy_nonneg [of k] by simp
  finally have "toDouble (accumulateBusy k + ?d) \<le> (accumulateBusy k + ?d) * ?e"
    by (rule toDouble_le_rel)
  also have "\<dots> \<le> (real k * ?d * ?e ^ k + ?d * ?e ^ k) * ?e"
  proof (intro mult_right_mono add_mono)
    show "accumulateBusy k \<le> real k * ?d * ?e ^ k" using Suc by (simp add: busyBound_def)
    show "?d \<le> ?d * ?e ^ k" using dpos e1 by simp
    show "0 \<le> ?e" by simp
  qed
  also have "\<dots> = real (Suc k) * ?d * ?e ^ Suc k" by (simp add: algebra_simps)
  finally show ?case by (simp add: addStepSize_def busyBound_def)
qed

lemma busyBound_mono: "k \<le> m \<Longrightarrow> busyBound k \<le> busyBound m"
proof -
  assume km: "k \<le> m"
  have "0 \<le> toDouble stepSize" by (rule toDouble_nonneg) (simp add: stepSize_def)
  moreover have "(1 + 1 / 2 ^ 53 :: real) ^ k \<le> (1 + 1 / 2 ^ 53) ^ m"
    using km by (intro power_increasing) simp_all
  moreover have "real k \<le> real m" using km by simp
  ultimately show ?thesis unfolding busyBound_def
    by (intro mult_mono) simp_all
qed

lemma utilization_le_one:
  assumes "0 < T" and "a \<le> T" and "0 \<le> a"
  shows "js_le (js_div_d (Num a) (Num T)) (Num 1)"
proof -
  have q: "a / T \<le> 2 powi 0" using assms by simp
  have "toDouble (a / T) \<le> 2 powi 0" by (rule toDouble_le_pow2 [OF q]) simp
  hence hi: "toDouble (a / T) \<le> 1" by simp
  have lo: "0 \<le> toDouble (a / T)" using assms by (intro toDouble_nonneg) simp
  have "(1::real) < 2 ^ 1024" by (rule one_less_power) simp_all
  with hi lo have "\<not> 2 ^ 1024 \<le> \<bar>toDouble (a / T)\<bar>" by simp
  thus ?thesis using assms(1) hi by (simp add: js_div_d_def js_round_def Let_def)
qed

lemma power_le_inverse:
  fixes x :: real
  assumes "0 \<le> x" "real n * x < 1"
  shows "(1 + x) ^ n \<le> 1 / (1 - real n * x)"
proof -
  have x1: "x \<le> 1 \<or> n = 0"
  proof (cases "n = 0")
    case False
    hence "1 \<le> real n" by simp
    hence "x \<le> real n * x" using assms(1) by (simp add: mult_le_cancel_right1)
    thus ?thesis using assms(2) by simp
  qed simp
  show ?thesis
  proof (cases "n = 0")
    case True thus ?thesis by simp
  next
    case False
    with x1 have xl: "x \<le> 1" by simp
    have b: "1 + real n * (- x) \<le> (1 + (- x)) ^ n"
      by (rule Bernoulli_inequality) (use xl in simp)
    have "(1 + x) ^ n * (1 - x) ^ n = ((1 + x) * (1 - x)) ^ n" by (simp add: power_mult_distrib)
    also have "(1 + x) * (1 - x) = 1 - x * x" by (simp add: algebra_simps)
    also have "(1 - x * x) ^ n \<le> 1" using xl assms(1)
      by (intro power_le_one) (simp_all add: mult_le_one)
    finally have p: "(1 + x) ^ n * (1 - x) ^ n \<le> 1" .
    have "(1 + x) ^ n * (1 - real n * x) \<le> (1 + x) ^ n * (1 - x) ^ n"
      using b assms(1) by (intro mult_left_mono) simp_all
    with p have "(1 + x) ^ n * (1 - real n * x) \<le> 1" by linarith
    thus ?thesis using assms(2) by (simp add: pos_le_divide_eq)
  qed
qed

lemma default_horizon_totalSteps:
  "totalSteps (exampleParams\<lparr>simulationTime := 3600\<rparr>) = 36000"
proof -
  have q: "simulationTime (exampleParams\<lparr>simulationTime := 3600\<rparr>) / toDouble stepSize
      = 129703669268270284800 / 3602879701896397"
    by (simp add: stepSize_def toDouble_stepSize)
  have v: "toDouble (129703669268270284800 / 3602879701896397) = 36000"
    by (rule trans [OF toDouble_eval [where p = 37 and n = 4947802324992000]])
       (simp_all add: roundHalfEven_def)
  show ?thesis by (simp only: totalSteps_def q v) simp
qed

lemma default_horizon_busyBound: "busyBound 35999 \<le> 3600"
proof -
  have "(1 + 1 / 2 ^ 53 :: real) ^ 35999 \<le> 1 / (1 - real 35999 * (1 / 2 ^ 53))"
    by (rule power_le_inverse) simp_all
  moreover have "(0::real) \<le> real 35999 * (3602879701896397 / 36028797018963968)" by simp
  ultimately have "real 35999 * (3602879701896397 / 36028797018963968) * (1 + 1 / 2 ^ 53) ^ 35999
      \<le> real 35999 * (3602879701896397 / 36028797018963968)
          * (1 / (1 - real 35999 * (1 / 2 ^ 53)))"
    by (rule mult_left_mono)
  also have "\<dots> \<le> 3600" by simp
  finally show ?thesis by (simp add: busyBound_def stepSize_def toDouble_stepSize)
qed

text \<open>
  Claim C6, as the specification states it: for every run with \<open>simulationTime > 0\<close>,
  every entry of \<open>perStationUtilization\<close> and \<open>seniorUtilization\<close> lies in \<open>[0, 1]\<close>.
  The upper bound fails. The run of the first example with the horizon
  \<open>simulationTime = 1.9000000000000004\<close> has \<open>Math.ceil(simulationTime / 0.1) = 20\<close>
  steps; its station 0 is busy in the steps 1 to 19, and 19 additions of \<open>0.1\<close> give
  the busy time \<open>1.9000000000000006\<close>, which is above the horizon. The utilization of
  station 0 in the result is \<open>1.0000000000000002 = 1 + 2^-52\<close>.
\<close>

theorem utilization_above_one:
  "\<exists>result. 0 < simulationTime overshootParams \<and>
     runSimulation overshootParams (exampleTape (1 / 2)) = Inr result \<and>
     perStationUtilization result = [Num (1 + 1 / 2 ^ 52), Num 0] \<and>
     \<not> js_le (Num (1 + 1 / 2 ^ 52)) (Num 1)"
proof -
  from overshoot_finalState obtain ts where
    f: "finalState overshootParams (exampleTape (1 / 2)) = Inr (exampleQuiet 19 ts)" by blast
  let ?r = "summarize overshootParams (exampleQuiet 19 ts)"
  have 1: "runSimulation overshootParams (exampleTape (1 / 2)) = Inr ?r"
    by (simp add: runSimulation_def f)
  have u0: "js_div_d (Num (accumulateBusy 19)) (Num (simulationTime overshootParams))
      = Num (1 + 1 / 2 ^ 52)"
    by (simp add: overshoot_utilization)
  have u1: "js_div_d (Num 0) (Num (simulationTime overshootParams)) = Num 0"
    by (simp add: js_div_d_def js_round_zero overshootParams_def)
  have "stationBusyTime (exampleQuiet 19 ts) = [accumulateBusy 19, 0]"
    by (simp add: exampleQuiet_def)
  then have 2: "perStationUtilization ?r = [Num (1 + 1 / 2 ^ 52), Num 0]"
    by (simp add: summarize_def Let_def u0 u1)
  have 3: "0 < simulationTime overshootParams" by (simp add: overshootParams_def)
  from 1 2 3 show ?thesis by (intro exI [of _ ?r]) simp
qed

text \<open>
  Claim C6, amended. For every run with \<open>simulationTime > 0\<close>, every entry of
  \<open>perStationUtilization\<close> and \<open>seniorUtilization\<close> is not negative (and not \<open>NaN\<close>),
  and it is the quotient by \<open>simulationTime\<close> of a busy time that \<open>k\<close> additions of
  \<open>stepSize\<close> have accumulated from \<open>0\<close>, for some \<open>k\<close> of at most
  \<open>totalSteps - 1 = Math.ceil(simulationTime / 0.1) - 1\<close>: a station is idle throughout
  step 0, and it is busy in at most every later step. Every addition rounds, so the busy
  time after \<open>k\<close> additions is not \<open>k / 10\<close>; it is at most
  \<open>busyBound (totalSteps - 1)\<close>, where \<open>busyBound n\<close> is \<open>0.1 n (1 + 2^-53)^n\<close> for
  the double \<open>0.1\<close>. Whenever \<open>busyBound (totalSteps - 1)\<close> is at most
  \<open>simulationTime\<close>, every entry is at most 1, and so in \<open>[0, 1]\<close>. That is so for the
  default horizon of 3600 seconds (\<open>default_horizon_totalSteps\<close>,
  \<open>default_horizon_busyBound\<close>), where 35999 additions stay below \<open>3600\<close>.
\<close>

theorem utilization_is_accumulated_busy_time:
  assumes "0 < simulationTime params" and "runSimulation params tape = Inr result"
  shows "list_all (\<lambda>u. js_le (Num 0) u \<and>
            (\<exists>k\<le>totalSteps params - 1.
               u = js_div_d (Num (accumulateBusy k)) (Num (simulationTime params)) \<and>
               accumulateBusy k \<le> busyBound (totalSteps params - 1)))
           (perStationUtilization result) \<and>
         js_le (Num 0) (seniorUtilization result) \<and>
         (\<exists>k\<le>totalSteps params - 1.
            seniorUtilization result =
              js_div_d (Num (accumulateBusy k)) (Num (simulationTime params)) \<and>
            accumulateBusy k \<le> busyBound (totalSteps params - 1)) \<and>
         (busyBound (totalSteps params - 1) \<le> simulationTime params \<longrightarrow>
            list_all (\<lambda>u. js_le u (Num 1)) (perStationUtilization result) \<and>
            js_le (seniorUtilization result) (Num 1))"
proof -
  from assms(2) obtain s where s: "finalState params tape = Inr s"
    and r: "result = summarize params s"
    by (auto simp: runSimulation_def split: sum.splits)
  let ?T = "simulationTime params"
  let ?N = "totalSteps params - 1"
  from finalState_busyTime [OF s]
  have bt: "\<forall>t\<in>set (stationBusyTime s). \<exists>k\<le>?N. t = accumulateBusy k"
    and sbt: "\<exists>k\<le>?N. seniorBusyTime s = accumulateBusy k"
    by (auto simp: busyTimesAccumulated_def list_all_iff)
  have ps: "perStationUtilization result = map (\<lambda>t. js_div_d (Num t) (Num ?T)) (stationBusyTime s)"
    by (simp add: r summarize_def Let_def)
  have sn: "seniorUtilization result = js_div_d (Num (seniorBusyTime s)) (Num ?T)"
    by (simp add: r summarize_def Let_def)
  have one: "js_le (Num 0) (js_div_d (Num t) (Num ?T)) \<and>
        (\<exists>k\<le>?N. js_div_d (Num t) (Num ?T) = js_div_d (Num (accumulateBusy k)) (Num ?T) \<and>
           accumulateBusy k \<le> busyBound ?N) \<and>
        (busyBound ?N \<le> ?T \<longrightarrow> js_le (js_div_d (Num t) (Num ?T)) (Num 1))"
    if "\<exists>k\<le>?N. t = accumulateBusy k" for t
  proof -
    from that obtain k where k: "k \<le> ?N" "t = accumulateBusy k" by blast
    have b: "accumulateBusy k \<le> busyBound ?N"
      using accumulateBusy_le [of k] busyBound_mono [OF k(1)] by linarith
    have "js_le (js_div_d (Num t) (Num ?T)) (Num 1)" if "busyBound ?N \<le> ?T"
    proof (rule utilization_le_one [OF assms(1)])
      show "t \<le> ?T" using b that k(2) by linarith
      show "0 \<le> t" using accumulateBusy_nonneg [of k] k(2) by simp
    qed
    with utilization_nonneg [OF assms(1), of k] k b show ?thesis by blast
  qed
  from one bt have "list_all (\<lambda>u. js_le (Num 0) u \<and>
            (\<exists>k\<le>?N. u = js_div_d (Num (accumulateBusy k)) (Num ?T) \<and>
               accumulateBusy k \<le> busyBound ?N))
           (perStationUtilization result)"
    unfolding ps by (simp add: list_all_iff)
  moreover from one bt have "busyBound ?N \<le> ?T \<longrightarrow>
      list_all (\<lambda>u. js_le u (Num 1)) (perStationUtilization result)"
    unfolding ps by (simp add: list_all_iff)
  moreover from one [OF sbt] have "js_le (Num 0) (seniorUtilization result)"
    and "\<exists>k\<le>?N. seniorUtilization result = js_div_d (Num (accumulateBusy k)) (Num ?T) \<and>
           accumulateBusy k \<le> busyBound ?N"
    and "busyBound ?N \<le> ?T \<longrightarrow> js_le (seniorUtilization result) (Num 1)"
    unfolding sn by simp_all
  ultimately show ?thesis by simp
qed

text \<open>The second example run returns: it has three steps, its station is busy in the
  steps 1 and 2, and the senior station never. Two additions stay below the horizon of
  \<open>0.3\<close> seconds, and the utilizations are in \<open>[0, 1]\<close>.\<close>

theorem utilization_is_accumulated_busy_time_witness:
  "0 < simulationTime queueParams \<and>
   runSimulation queueParams queueTape = Inr (summarize queueParams queueState3) \<and>
   totalSteps queueParams - 1 = 2 \<and>
   busyBound 2 \<le> simulationTime queueParams \<and>
   perStationUtilization (summarize queueParams queueState3)
     = [js_div_d (Num (accumulateBusy 2)) (Num (simulationTime queueParams))] \<and>
   seniorUtilization (summarize queueParams queueState3)
     = js_div_d (Num (accumulateBusy 0)) (Num (simulationTime queueParams)) \<and>
   list_all (js_le (Num 0)) (perStationUtilization (summarize queueParams queueState3)) \<and>
   js_le (Num 0) (seniorUtilization (summarize queueParams queueState3)) \<and>
   list_all (\<lambda>u. js_le u (Num 1)) (perStationUtilization (summarize queueParams queueState3)) \<and>
   js_le (seniorUtilization (summarize queueParams queueState3)) (Num 1)"
proof -
  have 1: "0 < simulationTime queueParams" by (simp add: queueParams_def)
  have 2: "runSimulation queueParams queueTape = Inr (summarize queueParams queueState3)"
    by (rule queue_runSimulation)
  have 3: "perStationUtilization (summarize queueParams queueState3)
      = [js_div_d (Num (accumulateBusy 2)) (Num (simulationTime queueParams))]"
    by (simp add: summarize_def Let_def queueState3_def)
  have 4: "seniorUtilization (summarize queueParams queueState3)
      = js_div_d (Num (accumulateBusy 0)) (Num (simulationTime queueParams))"
    by (simp add: summarize_def Let_def queueState3_def queueState2_def queueState1_def
        queueState0_def)
  have 5: "totalSteps queueParams - 1 = 2" by (simp add: queue_totalSteps)
  have 6: "busyBound 2 \<le> simulationTime queueParams"
    by (simp add: busyBound_def stepSize_def toDouble_stepSize queueParams_def power_divide)
  from utilization_is_accumulated_busy_time [OF 1 2] 6
  have "list_all (js_le (Num 0)) (perStationUtilization (summarize queueParams queueState3))"
    and "js_le (Num 0) (seniorUtilization (summarize queueParams queueState3))"
    and "list_all (\<lambda>u. js_le u (Num 1)) (perStationUtilization (summarize queueParams queueState3))"
    and "js_le (seniorUtilization (summarize queueParams queueState3)) (Num 1)"
    by (simp_all add: queue_totalSteps list_all_iff)
  with 1 2 3 4 5 6 show ?thesis by blast
qed

subsection \<open>The inter-arrival draw is not resampled at zero (C10)\<close>

text \<open>
  Claim C10: unlike \<open>truncatedNormal\<close>, the inter-arrival sampling does not resample a
  draw of exactly 0, so for some random stream \<open>-ln(U)/rate\<close> is evaluated at
  \<open>U = 0\<close>, outside the domain of the logarithm. \<open>sampleInterArrival\<close> consumes a draw
  of 0 and hands it to \<open>Math.log\<close>, which is at its branch for the argument 0
  (\<open>-Infinity\<close> in JavaScript), where \<open>drawNonZero\<close> skips it. On the tape \<open>[0]\<close>
  the first inter-arrival time of a run is computed from this draw, and on the tape
  \<open>[99/100, 1/2, 0, 1/2, 1/4]\<close> so is the one resampled after the arrival in step 0;
  both tapes hold draws from \<open>[0, 1)\<close> only. In both runs the countdown becomes
  \<open>Infinity\<close>.
\<close>

theorem interArrival_log_at_zero:
  "sampleInterArrival rate (0 # tape)
     = Inr (js_div (js_neg (js_log (Num 0))) (Num rate), tape) \<and>
   js_log (Num 0) = NInf \<and>
   drawNonZero (0 # tape) = drawNonZero tape \<and>
   validTape [0] \<and>
   map_sum id timeToNextArrival (initialState exampleParams [0]) = Inr PInf \<and>
   validTape (exampleTape 0) \<and>
   map_sum id timeToNextArrival (finalState exampleParams (exampleTape 0)) = Inr PInf"
proof -
  have 1: "sampleInterArrival rate (0 # tape)
     = Inr (js_div (js_neg (js_log (Num 0))) (Num rate), tape)"
    by (simp add: sampleInterArrival_def Math_random_def)
  have 2: "map_sum id timeToNextArrival (initialState exampleParams [0]) = Inr PInf"
    by (simp add: initialState_def sampleInterArrival_def Math_random_def
        arrivalRatePerSecond_def exampleParams_def)
  have 3: "map_sum id timeToNextArrival (finalState exampleParams (exampleTape 0)) = Inr PInf"
    by (simp add: example_finalState exampleFinal_def exampleServing_def exampleArrived_def)
  have 4: "validTape [0]" "validTape (exampleTape 0)"
    by (simp_all add: validTape_def exampleTape_def)
  from 1 2 3 4 show ?thesis by simp
qed

section \<open>Samples of a run are not negative\<close>

subsection \<open>Waiting times\<close>











subsection \<open>Service times\<close>

lemma nonNegative_iff: "nonNegative d \<longleftrightarrow> (\<exists>x. d = Num x \<and> 0 \<le> x)"
  by (cases d) (simp_all add: nonNegative_def)

lemma validTape_Math_random:
  "validTape tape \<Longrightarrow> Math_random tape = Inr (r, rest) \<Longrightarrow> validTape rest"
  by (cases tape) (auto simp: Math_random_def validTape_Cons)

lemma validTape_sampleInterArrival:
  "validTape tape \<Longrightarrow> sampleInterArrival rate tape = Inr (t, rest) \<Longrightarrow> validTape rest"
  by (auto simp: sampleInterArrival_def split: sum.splits dest: validTape_Math_random)

lemma serviceTimesOk_handleArrivals:
  assumes "serviceTimesOk s" and "handleArrivals params t s = Inr s'"
  shows "serviceTimesOk s'"
proof (cases "js_le (js_sub (timeToNextArrival s) (Num stepSize)) (Num 0)")
  case False
  with assms show ?thesis by (auto simp: handleArrivals_def Let_def serviceTimesOk_def)
next
  case True
  with assms(2) obtain r rest next' rest' where
    1: "Math_random (rng s) = Inr (r, rest)" and
    2: "sampleInterArrival (arrivalRatePerSecond params) rest = Inr (next', rest')" and
    3: "rng s' = rest'" "primaryServiceTimes s' = primaryServiceTimes s"
      "seniorServiceTimes s' = seniorServiceTimes s"
    by (auto simp: handleArrivals_def Let_def split: sum.splits)
  from assms(1) have "validTape (rng s)" by (simp add: serviceTimesOk_def)
  from validTape_sampleInterArrival [OF validTape_Math_random [OF this 1] 2]
  have "validTape rest'" .
  with assms(1) 3 show ?thesis by (simp add: serviceTimesOk_def)
qed

lemma serviceTimesOk_completePrimary:
  "serviceTimesOk s \<Longrightarrow> serviceTimesOk (completePrimary i s)"
  by (simp add: completePrimary_def Let_def serviceTimesOk_def)

lemma serviceTimesOk_startPrimary:
  assumes "serviceTimesOk s" and "startPrimary params t i s = Inr s'"
  shows "serviceTimesOk s'"
proof (cases "\<not> busy (primaryStations s ! i) \<and> queue (primaryStations s ! i) \<noteq> []")
  case False
  with assms(2) have "s' = s"
    by (auto simp: startPrimary_def Let_def split: list.splits)
  with assms(1) show ?thesis by simp
next
  case True
  let ?st = "primaryStations s ! i"
  from True obtain first remaining where q: "queue ?st = first # remaining"
    by (cases "queue ?st") auto
  from assms(2) True q obtain serviceTime rest where
    tn: "truncatedNormal (mu1 params) (sigma1 params) (rng s) = Inr (serviceTime, rest)"
    by (auto simp: startPrimary_def Let_def split: sum.splits)
  from assms(2) True q tn have s': "primaryServiceTimes s' = primaryServiceTimes s @ [serviceTime]"
    "seniorServiceTimes s' = seniorServiceTimes s" "rng s' = rest"
    by (auto simp: startPrimary_def Let_def)
  from assms(1) have "validTape (rng s)" by (simp add: serviceTimesOk_def)
  from truncatedNormal_result [OF this tn] have "nonNegative serviceTime" "validTape rest"
    unfolding nonNegative_iff by blast+
  with assms(1) s' show ?thesis by (simp add: serviceTimesOk_def)
qed

lemma serviceTimesOk_completeSenior:
  "serviceTimesOk s \<Longrightarrow> serviceTimesOk (completeSenior s)"
  by (simp add: completeSenior_def Let_def serviceTimesOk_def)

lemma serviceTimesOk_startSenior:
  assumes "serviceTimesOk s" and "startSenior params s = Inr s'"
  shows "serviceTimesOk s'"
proof (cases "\<not> busy (seniorStation s) \<and> queue (seniorStation s) \<noteq> []")
  case False
  with assms(2) have "s' = s"
    by (auto simp: startSenior_def Let_def split: list.splits)
  with assms(1) show ?thesis by simp
next
  case True
  let ?st = "seniorStation s"
  from True obtain first remaining where q: "queue ?st = first # remaining"
    by (cases "queue ?st") auto
  from assms(2) True q obtain serviceTime rest where
    tn: "truncatedNormal (mu2 params) (sigma2 params) (rng s) = Inr (serviceTime, rest)"
    by (auto simp: startSenior_def Let_def split: sum.splits)
  from assms(2) True q tn have s': "seniorServiceTimes s' = seniorServiceTimes s @ [serviceTime]"
    "primaryServiceTimes s' = primaryServiceTimes s" "rng s' = rest"
    by (auto simp: startSenior_def Let_def)
  from assms(1) have "validTape (rng s)" by (simp add: serviceTimesOk_def)
  from truncatedNormal_result [OF this tn] have "nonNegative serviceTime" "validTape rest"
    unfolding nonNegative_iff by blast+
  with assms(1) s' show ?thesis by (simp add: serviceTimesOk_def)
qed

lemma serviceTimesOk_simulationStep:
  assumes "serviceTimesOk s" and "simulationStep params step s = Inr s'"
  shows "serviceTimesOk s'"
proof -
  from assms(2) obtain s1 s2 s3 where
    1: "handleArrivals params (real step * stepSize) s = Inr s1" and
    2: "forEachPrimary params (real step * stepSize) [0..<length (primaryStations s1)] s1 = Inr s2" and
    3: "startSenior params (completeSenior s2) = Inr s3" and
    4: "s' = recordTimeSeries (real step * stepSize) s3"
    by (rule simulationStep_cases)
  from serviceTimesOk_handleArrivals [OF assms(1) 1] have a: "serviceTimesOk s1" .
  have b: "\<And>i x x'. serviceTimesOk x \<Longrightarrow> i \<in> set [0..<length (primaryStations s1)] \<Longrightarrow>
      processPrimaryStation params (real step * stepSize) i x = Inr x' \<Longrightarrow> serviceTimesOk x'"
    unfolding processPrimaryStation_def
    using serviceTimesOk_startPrimary serviceTimesOk_completePrimary by blast
  have "serviceTimesOk s2"
    by (rule forEachPrimary_invariant [where I = serviceTimesOk, OF b a 2])
  from serviceTimesOk_startSenior [OF serviceTimesOk_completeSenior [OF this] 3]
  have "serviceTimesOk s3" .
  with 4 show ?thesis by (simp add: recordTimeSeries_def Let_def serviceTimesOk_def)
qed

lemma finalState_serviceTimes_nonneg:
  assumes "validTape tape" and "finalState params tape = Inr s"
  shows "list_all nonNegative (primaryServiceTimes s) \<and> list_all nonNegative (seniorServiceTimes s)"
proof -
  from assms(2) obtain s0 where s0: "initialState params tape = Inr s0"
    and r: "runSteps params 0 (totalSteps params) s0 = Inr s"
    by (auto simp: finalState_def stateAfter_def split: sum.splits)
  from s0 assms(1) have "serviceTimesOk s0"
    by (auto simp: initialState_def serviceTimesOk_def split: sum.splits
        dest: validTape_sampleInterArrival)
  from runSteps_invariant [where I = serviceTimesOk, OF serviceTimesOk_simulationStep this r]
  show ?thesis by (simp add: serviceTimesOk_def)
qed


subsection \<open>Truncated-normal draws are not negative (C9)\<close>

text \<open>
  Claim C9: whenever \<open>truncatedNormal(mu, sigma)\<close> returns, its result is \<open>\<ge> 0\<close>, so
  that every service duration assigned to a station's \<open>remainingTime\<close> is not negative,
  and the Box-Muller computation never takes the logarithm at 0, because both uniform
  draws are resampled until they are not zero. On every tape of draws from \<open>[0, 1)\<close>:
  a value that \<open>truncatedNormal\<close> returns is a finite number \<open>\<ge> 0\<close>, the Box-Muller
  value of two draws \<open>u\<close> and \<open>v\<close> strictly between 0 and 1; the resampling loop
  \<open>drawNonZero\<close>, from which every pass takes its \<open>u\<close> and its \<open>v\<close>, hands over only
  a draw that is not 0, where the logarithm is the finite \<open>ln u\<close>, and leaves a tape of
  draws from \<open>[0, 1)\<close> for the next pass; and at the end of a run on the tape every
  service duration that was assigned to a \<open>remainingTime\<close> (they are recorded in
  \<open>primaryServiceTimes\<close> and \<open>seniorServiceTimes\<close>) is a finite number \<open>\<ge> 0\<close>.
\<close>

theorem truncatedNormal_nonnegative:
  assumes "validTape tape"
  shows "(\<forall>value rest. truncatedNormal mu sigma tape = Inr (value, rest) \<longrightarrow>
            (\<exists>x u v. value = Num x \<and> 0 \<le> x \<and> 0 < u \<and> u < 1 \<and> 0 < v \<and> v < 1 \<and>
               value = boxMuller mu sigma u v)) \<and>
         (\<forall>u rest. drawNonZero tape = Inr (u, rest) \<longrightarrow>
            u \<noteq> 0 \<and> js_log (Num u) = Num (ln u) \<and> validTape rest) \<and>
         (finalState params tape = Inr s \<longrightarrow>
            list_all nonNegative (primaryServiceTimes s) \<and>
            list_all nonNegative (seniorServiceTimes s))"
proof (intro conjI allI impI)
  fix val rest
  assume "truncatedNormal mu sigma tape = Inr (val, rest)"
  from truncatedNormal_result [OF assms this]
  show "\<exists>x u v. val = Num x \<and> 0 \<le> x \<and> 0 < u \<and> u < 1 \<and> 0 < v \<and> v < 1 \<and>
          val = boxMuller mu sigma u v"
    by blast
next
  fix u rest
  assume d: "drawNonZero tape = Inr (u, rest)"
  from drawNonZero_valid [OF assms d]
  show "u \<noteq> 0" and "js_log (Num u) = Num (ln u)" and "validTape rest"
    by simp_all
next
  assume f: "finalState params tape = Inr s"
  from finalState_serviceTimes_nonneg [OF assms f]
  show "list_all nonNegative (primaryServiceTimes s)"
    and "list_all nonNegative (seniorServiceTimes s)"
    by simp_all
qed

text \<open>
  A tape on which both resampling loops skip a zero: the draws taken are \<open>u = 1/2\<close> and
  \<open>v = 1/4\<close>, \<open>cos (2 \<pi> v) = 0\<close>, and the service time is the mean. And the second
  example run, with its two service times of \<open>0.15\<close> seconds.
\<close>

theorem truncatedNormal_nonnegative_witness:
  "validTape [0, 1 / 2, 0, 1 / 4] \<and>
   truncatedNormal 30 10 [0, 1 / 2, 0, 1 / 4] = Inr (Num 30, []) \<and>
   drawNonZero [0, 1 / 2, 0, 1 / 4] = Inr (1 / 2, [0, 1 / 4]) \<and>
   js_log (Num (1 / 2)) = Num (ln (1 / 2)) \<and>
   validTape queueTape \<and>
   finalState queueParams queueTape = Inr queueState3 \<and>
   primaryServiceTimes queueState3 = [Num (3 / 20), Num (3 / 20)] \<and>
   list_all nonNegative (primaryServiceTimes queueState3)"
proof -
  have v: "validTape [0, 1 / 2, 0, 1 / 4]" by (simp add: validTape_def)
  have t: "truncatedNormal 30 10 [0, 1 / 2, 0, 1 / 4] = Inr (Num 30, [])"
    by (subst truncatedNormal.simps) (simp add: boxMuller_def ln_div)
  have d: "drawNonZero [0, 1 / 2, 0, 1 / 4] = Inr (1 / 2, [0, 1 / 4])" by simp
  from truncatedNormal_nonnegative [OF v, of 30 10] d
  have l: "js_log (Num (1 / 2)) = Num (ln (1 / 2))" by blast
  have q: "validTape queueTape" by (rule queue_validTape)
  have f: "finalState queueParams queueTape = Inr queueState3" by (rule queue_finalState)
  from truncatedNormal_nonnegative [OF q, of _ _ queueParams queueState3] f
  have n: "list_all nonNegative (primaryServiceTimes queueState3)" by blast
  have p: "primaryServiceTimes queueState3 = [Num (3 / 20), Num (3 / 20)]"
    by (simp add: queueState3_def)
  from v t d l q f p n show ?thesis by blast
qed

subsection \<open>The histogram of the waiting times (C7)\<close>



subsection \<open>The degenerate histogram (C2)\<close>

text \<open>
  Claim C2 says that when every waiting time is 0 the histogram does not fault and puts
  every sample into bin 0. The code does not fault, but it puts the samples nowhere:
  \<open>binSize\<close> is \<open>0\<close>, \<open>time / binSize\<close> is \<open>0/0 = NaN\<close>, \<open>Math.floor\<close> and
  \<open>Math.min\<close> keep the \<open>NaN\<close>, and \<open>counts[NaN]++\<close> touches no element of the array.
  For three travelers that each waited 0 seconds all twenty counts are 0; and so they
  are in the result of the first example run, whose only traveler is served in the step
  in which it arrives.
\<close>

theorem calculateWaitingTimeDistribution_all_zero:
  "counts (calculateWaitingTimeDistribution [0, 0, 0]) = replicate 20 0 \<and>
   runSimulation exampleParams (exampleTape (1 / 2))
     = Inr (summarize exampleParams (exampleFinal (1 / 2))) \<and>
   waitingTimes (exampleFinal (1 / 2)) = [0] \<and>
   counts (waitingTimeDistribution (summarize exampleParams (exampleFinal (1 / 2))))
     = replicate 20 0"
proof -
  have 1: "counts (calculateWaitingTimeDistribution [0, 0, 0]) = replicate 20 0"
    by (rule histogram_all_zero) simp_all
  have 2: "runSimulation exampleParams (exampleTape (1 / 2))
      = Inr (summarize exampleParams (exampleFinal (1 / 2)))"
    by (simp add: runSimulation_def example_finalState)
  have 3: "waitingTimes (exampleFinal (1 / 2)) = [0]"
    by (simp add: exampleFinal_def exampleServing_def)
  have "counts (calculateWaitingTimeDistribution [0]) = replicate 20 0"
    by (rule histogram_all_zero) simp_all
  then have 4: "counts (waitingTimeDistribution (summarize exampleParams (exampleFinal (1 / 2))))
      = replicate 20 0"
    by (simp add: summarize_def Let_def 3)
  from 1 2 3 4 show ?thesis by blast
qed

end
